theory Spec2Isabelle
  imports Complex_Main
begin

section \<open>JavaScript values used by the handlers\<close>

text \<open>
  A JavaScript string is modelled as a \<^typ>\<open>string\<close>, one list element per code unit.
  Node decodes header values as Latin-1, so for the headers read by \<open>getIP\<close> eight-bit
  characters are exact; of the prompt only its \<open>length\<close> and its emptiness are inspected.
  Numbers that the code computes with are integers (millisecond clock readings, counters,
  status codes), far below \<open>2 ^ 53\<close>, where double arithmetic on integers is exact; they
  are modelled as \<^typ>\<open>int\<close> and \<^typ>\<open>nat\<close>. A number inside a request body is only
  tested for its type and its truthiness, for which \<open>JNum 0\<close> stands for the falsy numbers
  and any other \<open>JNum\<close> for the rest.
\<close>

datatype jsval =
    JUndefined
  | JNull
  | JBool bool
  | JNum int
  | JStr string
  | JArr "jsval list"
  | JObj "(string \<times> jsval) list"

text \<open>\<open>!v\<close> is \<open>\<not> truthy v\<close>: the falsy values are undefined, null, false, 0 and the
  empty string.\<close>

fun truthy :: "jsval \<Rightarrow> bool" where
  "truthy JUndefined = False"
| "truthy JNull = False"
| "truthy (JBool b) = b"
| "truthy (JNum n) = (n \<noteq> 0)"
| "truthy (JStr s) = (s \<noteq> [])"
| "truthy (JArr _) = True"
| "truthy (JObj _) = True"

text \<open>\<open>typeof v === 'string'\<close>.\<close>

fun is_string :: "jsval \<Rightarrow> bool" where
  "is_string (JStr _) = True"
| "is_string _ = False"

text \<open>The characters of a value already known to be a string (\<open>v.length\<close> is only
  evaluated behind the \<open>typeof\<close> test).\<close>

fun the_string :: "jsval \<Rightarrow> string" where
  "the_string (JStr s) = s"
| "the_string _ = []"

text \<open>
  Reading a named property the way the handlers do (destructuring a truthy value, or
  optional chaining \<open>v?.k\<close>): an object yields the property or undefined, every other
  value yields undefined for the property names used here. The association list holds the
  own properties of the object, each key once.
\<close>

fun get_prop :: "jsval \<Rightarrow> string \<Rightarrow> jsval" where
  "get_prop (JObj kvs) k = (case map_of kvs k of None \<Rightarrow> JUndefined | Some v \<Rightarrow> v)"
| "get_prop _ k = JUndefined"

text \<open>\<open>a || b\<close> on values.\<close>

definition js_or :: "jsval \<Rightarrow> jsval \<Rightarrow> jsval" where
  "js_or a b = (if truthy a then a else b)"

subsection \<open>Number to string\<close>

text \<open>
  The template literals of the source interpolate integer-valued numbers; JavaScript
  prints those (below \<open>10 ^ 21\<close> in size) in decimal, with a leading minus sign when
  negative.
\<close>

definition digitChars :: string where
  "digitChars = ''0123456789''"

fun natToString :: "nat \<Rightarrow> string" where
  "natToString n =
     (if n < 10 then [digitChars ! n]
      else natToString (n div 10) @ [digitChars ! (n mod 10)])"

declare natToString.simps [simp del]

definition numToString :: "int \<Rightarrow> string" where
  "numToString i = (if i < 0 then CHR ''-'' # natToString (nat (- i)) else natToString (nat i))"

section \<open>generate.js: rate limit configuration and state\<close>

definition RATE_LIMIT_MAX :: nat where
  "RATE_LIMIT_MAX = 3"

definition RATE_LIMIT_WINDOW :: int where
  "RATE_LIMIT_WINDOW = 60 * 60 * 1000"

definition DAILY_GLOBAL_CAP :: int where
  "DAILY_GLOBAL_CAP = 100"

text \<open>The module-level variables \<open>ipStore\<close>, \<open>dailyCount\<close> and \<open>dailyReset\<close>.\<close>

record rl_state =
  ipStore :: "string \<rightharpoonup> int list"
  dailyCount :: int
  dailyReset :: int

text \<open>The state right after the module is loaded at clock reading \<open>t0\<close>.\<close>

definition coldStart :: "int \<Rightarrow> rl_state" where
  "coldStart t0 = \<lparr>ipStore = Map.empty, dailyCount = 0, dailyReset = t0 + 24 * 60 * 60 * 1000\<rparr>"

text \<open>The object returned by \<open>checkRateLimit\<close>; \<open>reason\<close> is absent when allowed.\<close>

record rl_result =
  allowed :: bool
  reason :: "string option"

text \<open>\<open>Math.ceil(a / b)\<close> for an integer \<open>a\<close> and a positive integer \<open>b\<close>: the quotient
  of the source is a double, whose ceiling is the exact one for the operands that occur
  (\<open>ceilDiv_ceiling\<close> relates it to the ceiling of the real quotient).\<close>

definition ceilDiv :: "int \<Rightarrow> int \<Rightarrow> int" where
  "ceilDiv a b = - ((- a) div b)"

definition dailyLimitReason :: string where
  "dailyLimitReason = ''Daily limit reached. Please try again tomorrow.''"

text \<open>The template literal of the per-IP denial.\<close>

definition hourlyLimitReason :: "int \<Rightarrow> string" where
  "hourlyLimitReason retryAfter =
     ''You've used your '' @ numToString (int RATE_LIMIT_MAX) @
     '' free analyses for this hour. Try again in ~'' @ numToString retryAfter @
     '' minute'' @ (if retryAfter \<noteq> 1 then ''s'' else '''') @ ''.''"

text \<open>
  \<open>checkRateLimit(ip)\<close>, with the reading of \<open>Date.now()\<close> as the argument \<open>now\<close> and the
  module state passed in and returned.
\<close>

definition checkRateLimit :: "string \<Rightarrow> int \<Rightarrow> rl_state \<Rightarrow> rl_result \<times> rl_state" where
  "checkRateLimit ip now s0 =
     (let s = (if now > dailyReset s0
               then s0\<lparr>dailyCount := 0, dailyReset := now + 24 * 60 * 60 * 1000\<rparr>
               else s0)
      in if dailyCount s \<ge> DAILY_GLOBAL_CAP
         then (\<lparr>allowed = False, reason = Some dailyLimitReason\<rparr>, s)
         else
           let timestamps =
                 filter (\<lambda>t. now - t < RATE_LIMIT_WINDOW)
                   (case ipStore s ip of None \<Rightarrow> [] | Some ts \<Rightarrow> ts)
           in if length timestamps \<ge> RATE_LIMIT_MAX
              then
                let retryAfter = ceilDiv (timestamps ! 0 + RATE_LIMIT_WINDOW - now) 60000
                in (\<lparr>allowed = False, reason = Some (hourlyLimitReason retryAfter)\<rparr>, s)
              else
                (\<lparr>allowed = True, reason = None\<rparr>,
                 s\<lparr>ipStore := (ipStore s)(ip \<mapsto> timestamps @ [now]),
                   dailyCount := dailyCount s + 1\<rparr>))"

text \<open>A sequence of calls, one after the other, each with its identifier and clock reading.\<close>

fun checks :: "rl_state \<Rightarrow> (string \<times> int) list \<Rightarrow> rl_result list \<times> rl_state" where
  "checks s [] = ([], s)"
| "checks s ((ip, now) # es) =
     (let (r, s') = checkRateLimit ip now s;
          (rs, s'') = checks s' es
      in (r # rs, s''))"

subsection \<open>Vocabulary of the properties\<close>

text \<open>The identifier's stored timestamps that are still inside the window at \<open>now\<close>.\<close>

definition surviving :: "rl_state \<Rightarrow> string \<Rightarrow> int \<Rightarrow> int list" where
  "surviving s ip now =
     filter (\<lambda>t. now - t < RATE_LIMIT_WINDOW) (case ipStore s ip of None \<Rightarrow> [] | Some ts \<Rightarrow> ts)"

text \<open>The value of the daily counter that the cap test of a call at \<open>now\<close> sees.\<close>

definition countSeen :: "rl_state \<Rightarrow> int \<Rightarrow> int" where
  "countSeen s now = (if now > dailyReset s then 0 else dailyCount s)"

text \<open>The state that the cap test and the window test of a call at \<open>now\<close> work on: the
  daily rollover of the first step applied.\<close>

definition afterReset :: "rl_state \<Rightarrow> int \<Rightarrow> rl_state" where
  "afterReset s now =
     (if now > dailyReset s then s\<lparr>dailyCount := 0, dailyReset := now + 24 * 60 * 60 * 1000\<rparr>
      else s)"

text \<open>The retry-after value of the code, \<open>retryAfter\<close>, as a ceiling of a real
  quotient: (first surviving timestamp, \<open>timestamps[0]\<close>, + window - now) in minutes.\<close>

definition retryMinutes :: "rl_state \<Rightarrow> string \<Rightarrow> int \<Rightarrow> int" where
  "retryMinutes s ip now =
     \<lceil>real_of_int (surviving s ip now ! 0 + RATE_LIMIT_WINDOW - now) / 60000\<rceil>"

text \<open>The oldest of the identifier's surviving timestamps, and retry-after as the
  specification words it: the ceiling of (oldest surviving timestamp + window - now) in
  minutes. Both are meant for a window that is not empty.\<close>

definition oldestSurviving :: "rl_state \<Rightarrow> string \<Rightarrow> int \<Rightarrow> int" where
  "oldestSurviving s ip now = Min (set (surviving s ip now))"

definition oldestRetryMinutes :: "rl_state \<Rightarrow> string \<Rightarrow> int \<Rightarrow> int" where
  "oldestRetryMinutes s ip now =
     \<lceil>real_of_int (oldestSurviving s ip now + RATE_LIMIT_WINDOW - now) / 60000\<rceil>"

text \<open>Every stored sequence is in non-decreasing order and holds no timestamp after the
  clock reading \<open>T\<close>: what calls with non-decreasing clock readings up to \<open>T\<close> leave.\<close>

definition chronological :: "rl_state \<Rightarrow> int \<Rightarrow> bool" where
  "chronological s T =
     (\<forall>ip ts. ipStore s ip = Some ts \<longrightarrow> sorted ts \<and> (\<forall>t\<in>set ts. t \<le> T))"

text \<open>The invariants of the store and of the counter.\<close>

definition windowBounded :: "rl_state \<Rightarrow> bool" where
  "windowBounded s = (\<forall>ip ts. ipStore s ip = Some ts \<longrightarrow> length ts \<le> RATE_LIMIT_MAX)"

definition underCap :: "rl_state \<Rightarrow> bool" where
  "underCap s = (dailyCount s \<le> DAILY_GLOBAL_CAP)"

text \<open>The identifier's stored sequence, empty when it has none.\<close>

definition stored :: "rl_state \<Rightarrow> string \<Rightarrow> int list" where
  "stored s ip = (case ipStore s ip of None \<Rightarrow> [] | Some ts \<Rightarrow> ts)"

text \<open>Every check of a sequence of calls finds the counter below the cap and fewer than
  max-per-window surviving timestamps of its identifier.\<close>

fun eachBelowLimits :: "rl_state \<Rightarrow> (string \<times> int) list \<Rightarrow> bool" where
  "eachBelowLimits s [] = True"
| "eachBelowLimits s ((ip, now) # es) =
     (countSeen s now < DAILY_GLOBAL_CAP \<and> length (surviving s ip now) < RATE_LIMIT_MAX \<and>
      eachBelowLimits (snd (checkRateLimit ip now s)) es)"

text \<open>The result of an allowed call.\<close>

definition allowedResult :: rl_result where
  "allowedResult = \<lparr>allowed = True, reason = None\<rparr>"

section \<open>Requests and responses\<close>

record socket =
  remoteAddress :: "string option"

text \<open>What the handlers read of \<open>req\<close>; \<open>method_name\<close> is \<open>req.method\<close>.\<close>

record request =
  method_name :: string
  headers :: "string \<rightharpoonup> string"
  socket :: "socket option"
  body :: jsval

datatype payload =
    NoPayload
  | Json "(string \<times> jsval) list"
  | EventStream "string list"

record response =
  statusCode :: nat
  resHeaders :: "(string \<times> string) list"
  payload :: payload

text \<open>Both handlers set the same three headers before anything else.\<close>

definition corsHeaders :: "(string \<times> string) list" where
  "corsHeaders =
     [(''Access-Control-Allow-Origin'', ''*''),
      (''Access-Control-Allow-Methods'', ''POST, OPTIONS''),
      (''Access-Control-Allow-Headers'', ''Content-Type'')]"

text \<open>\<open>res.status(c).end()\<close> and \<open>res.status(c).json(obj)\<close>.\<close>

definition endWith :: "nat \<Rightarrow> response" where
  "endWith c = \<lparr>statusCode = c, resHeaders = corsHeaders, payload = NoPayload\<rparr>"

definition jsonWith :: "nat \<Rightarrow> (string \<times> jsval) list \<Rightarrow> response" where
  "jsonWith c obj = \<lparr>statusCode = c, resHeaders = corsHeaders, payload = Json obj\<rparr>"

section \<open>generate.js: the source identifier\<close>

text \<open>\<open>s.split(sep)\<close> for a one-character separator: never empty, \<open>\<close> gives \<open>[]\<close>.\<close>

fun js_split :: "char \<Rightarrow> string \<Rightarrow> string list" where
  "js_split sep [] = [[]]"
| "js_split sep (c # cs) =
     (if c = sep then [] # js_split sep cs
      else (case js_split sep cs of [] \<Rightarrow> [[c]] | w # ws \<Rightarrow> (c # w) # ws))"

text \<open>The white space and line terminators of ECMAScript among the Latin-1 code units:
  tab, line feed, vertical tab, form feed, carriage return, space, no-break space.\<close>

definition is_ws :: "char \<Rightarrow> bool" where
  "is_ws c = (of_char c \<in> {9, 10, 11, 12, 13, 32, 160 :: nat})"

definition js_trim :: "string \<Rightarrow> string" where
  "js_trim s = rev (dropWhile is_ws (rev (dropWhile is_ws s)))"

text \<open>\<open>a || b\<close> where \<open>a\<close> is a string or undefined and \<open>b\<close> is a string.\<close>

definition strOr :: "string option \<Rightarrow> string \<Rightarrow> string" where
  "strOr a b = (case a of None \<Rightarrow> b | Some v \<Rightarrow> if v = [] then b else v)"

text \<open>
  \<open>getIP(req)\<close>. The chain \<open>a || b || c || d\<close> has the value of \<open>a || (b || (c || d))\<close>;
  \<open>?.\<close> passes an absent header or socket on as undefined.
\<close>

definition getIP :: "request \<Rightarrow> string" where
  "getIP req =
     strOr (map_option (\<lambda>h. js_trim (js_split CHR '','' h ! 0)) (headers req ''x-forwarded-for''))
       (strOr (headers req ''x-real-ip'')
         (strOr (case socket req of None \<Rightarrow> None | Some so \<Rightarrow> remoteAddress so)
            ''unknown''))"

section \<open>generate.js: the handler\<close>

text \<open>
  What the call to the upstream API does, as far as the handler looks at it: \<open>fetch\<close>
  rejects; or it resolves with \<open>ok\<close> false and a body that \<open>json()\<close> parses or not; or it
  resolves with \<open>ok\<close> true and the reader yields these decoded chunks before it is done or
  throws (the handler ends the response either way).
\<close>

datatype upstream =
    UpstreamRejects string
  | UpstreamError "jsval option"
  | UpstreamStream "string list"

text \<open>
  \<open>handler(req, res)\<close> of generate.js. The environment is explicit: the value of
  \<open>process.env.ANTHROPIC_API_KEY\<close>, the upstream call as a function of key and prompt, and
  the clock reading. A rejected \<open>fetch\<close> is not caught by the handler: \<open>Inl\<close>. The
  dash of the 500 message is written as a hyphen here; the second copy of the file in the
  repository differs only in comments and in wording the first 400 message
  \<open>Invalid request body\<close>.
\<close>

definition generate_handler ::
  "string option \<Rightarrow> (string \<Rightarrow> string \<Rightarrow> upstream) \<Rightarrow> int \<Rightarrow> request \<Rightarrow> rl_state
     \<Rightarrow> (string + response) \<times> rl_state" where
  "generate_handler envKey anthropic now req s =
     (if method_name req = ''OPTIONS'' then (Inr (endWith 200), s)
      else if method_name req \<noteq> ''POST''
      then (Inr (jsonWith 405 [(''error'', JStr ''Method not allowed'')]), s)
      else
        let ip = getIP req;
            (r, s') = checkRateLimit ip now s
        in if \<not> allowed r
           then (Inr (jsonWith 429
                   [(''error'', case reason r of None \<Rightarrow> JUndefined | Some m \<Rightarrow> JStr m)]), s')
           else
             let prompt = get_prop (js_or (body req) (JObj [])) ''prompt''
             in if \<not> truthy prompt \<or> \<not> is_string prompt \<or> length (the_string prompt) < 20
                then (Inr (jsonWith 400 [(''error'', JStr ''Invalid request'')]), s')
                else if length (the_string prompt) > 12000
                then (Inr (jsonWith 400 [(''error'', JStr ''Prompt too large'')]), s')
                else
                  (case envKey of
                     None \<Rightarrow>
                       (Inr (jsonWith 500
                          [(''error'', JStr ''Server misconfiguration - API key not set'')]), s')
                   | Some apiKey \<Rightarrow>
                       if apiKey = []
                       then (Inr (jsonWith 500
                          [(''error'', JStr ''Server misconfiguration - API key not set'')]), s')
                       else
                         (case anthropic apiKey (the_string prompt) of
                            UpstreamRejects e \<Rightarrow> (Inl e, s')
                          | UpstreamError parsed \<Rightarrow>
                              let err = (case parsed of None \<Rightarrow> JObj [] | Some j \<Rightarrow> j)
                              in (Inr (jsonWith 502
                                    [(''error'',
                                      js_or (get_prop (get_prop err ''error'') ''message'')
                                        (JStr ''Upstream API error''))]), s')
                          | UpstreamStream chunks \<Rightarrow>
                              (Inr \<lparr>statusCode = 200,
                                    resHeaders = corsHeaders @
                                      [(''Content-Type'', ''text/event-stream''),
                                       (''Cache-Control'', ''no-cache''),
                                       (''Connection'', ''keep-alive'')],
                                    payload = EventStream chunks\<rparr>, s'))))"

text \<open>The status of a response, when the handler produced one.\<close>

definition statusOf :: "string + response \<Rightarrow> nat option" where
  "statusOf out = (case out of Inl _ \<Rightarrow> None | Inr res \<Rightarrow> Some (statusCode res))"

text \<open>The prompt of a request body, and the specification's rule for rejecting it: missing,
  not a string, shorter than 20 or longer than 12000.\<close>

definition promptField :: "request \<Rightarrow> jsval" where
  "promptField req = get_prop (body req) ''prompt''"

definition promptInvalid :: "jsval \<Rightarrow> bool" where
  "promptInvalid p =
     (p = JUndefined \<or> \<not> is_string p \<or> length (the_string p) < 20 \<or> 12000 < length (the_string p))"

section \<open>fetch.js\<close>

text \<open>What the handler reads of a parsed \<open>URL\<close> and of the response of \<open>fetch\<close>;
  \<open>bodyText\<close> is \<open>Inl\<close> when reading the body throws.\<close>

record url =
  protocol :: string
  href :: string

record fetched =
  ok :: bool
  status :: nat
  bodyText :: "string + string"

datatype fetch_outcome =
    FetchThrows string
  | FetchResolves fetched

text \<open>
  The second \<open>try\<close> block of the handler of fetch.js: the outbound \<open>fetch\<close> of the parsed
  address and what is made of its outcome. The \<open>catch\<close> takes both a rejected \<open>fetch\<close>
  and a failure to read the body.
\<close>

definition fetchSite :: "(string \<Rightarrow> fetch_outcome) \<Rightarrow> string \<Rightarrow> response" where
  "fetchSite fetch target =
     (case fetch target of
        FetchThrows e \<Rightarrow> jsonWith 502 [(''error'', JStr (''Could not reach site: '' @ e))]
      | FetchResolves response \<Rightarrow>
          if \<not> ok response
          then jsonWith 502
            [(''error'', JStr (''Site returned '' @ numToString (int (status response))))]
          else
            (case bodyText response of
               Inl e \<Rightarrow> jsonWith 502 [(''error'', JStr (''Could not reach site: '' @ e))]
             | Inr html \<Rightarrow> jsonWith 200 [(''html'', JStr html)]))"

text \<open>
  \<open>handler(req, res)\<close> of fetch.js. The platform's URL parser (\<open>None\<close> when \<open>new URL\<close>
  throws) and the outbound \<open>fetch\<close> are parameters. The error thrown for a protocol other
  than the two is caught by the same \<open>catch\<close> as a parse failure.
\<close>

definition fetch_handler ::
  "(string \<Rightarrow> url option) \<Rightarrow> (string \<Rightarrow> fetch_outcome) \<Rightarrow> request \<Rightarrow> response" where
  "fetch_handler newURL fetch req =
     (if method_name req = ''OPTIONS'' then endWith 200
      else if method_name req \<noteq> ''POST'' then jsonWith 405 [(''error'', JStr ''Method not allowed'')]
      else
        let url = get_prop (js_or (body req) (JObj [])) ''url''
        in if \<not> truthy url \<or> \<not> is_string url
           then jsonWith 400 [(''error'', JStr ''Missing url'')]
           else
             (case newURL (the_string url) of
                None \<Rightarrow> jsonWith 400 [(''error'', JStr ''Invalid URL'')]
              | Some parsed \<Rightarrow>
                  if protocol parsed \<notin> set [''http:'', ''https:'']
                  then jsonWith 400 [(''error'', JStr ''Invalid URL'')]
                  else fetchSite fetch (href parsed)))"

text \<open>The \<open>url\<close> field of a request body.\<close>

definition urlField :: "request \<Rightarrow> jsval" where
  "urlField req = get_prop (body req) ''url''"

text \<open>The specification's rule for rejecting the \<open>url\<close> field: missing or not a string,
  not parsed as an absolute URL, or parsed with a scheme other than http and https.\<close>

definition urlRejected :: "(string \<Rightarrow> url option) \<Rightarrow> jsval \<Rightarrow> bool" where
  "urlRejected newURL u =
     (\<not> is_string u \<or>
      (case newURL (the_string u) of
         None \<Rightarrow> True
       | Some p \<Rightarrow> protocol p \<noteq> ''http:'' \<and> protocol p \<noteq> ''https:''))"

section \<open>Requests and states used in the examples\<close>

text \<open>An identifier with three requests in the first two minutes after a cold start at 0.\<close>

definition exState :: rl_state where
  "exState = \<lparr>ipStore = Map.empty(''1.2.3.4'' \<mapsto> [0, 60000, 120000]), dailyCount = 3, dailyReset = 86400000\<rparr>"

text \<open>The clock is set back after three requests: load at 0, three requests at
  10000000, then the clock reads 0 again.\<close>

definition clockSetBack :: rl_state where
  "clockSetBack =
     snd (checks (coldStart 0)
       [(''1.2.3.4'', 10000000), (''1.2.3.4'', 10000000), (''1.2.3.4'', 10000000)])"

text \<open>Three requests whose clock readings are out of order: 120000, then 0, then 60000.\<close>

definition clockOutOfOrder :: rl_state where
  "clockOutOfOrder =
     snd (checks (coldStart 0) [(''1.2.3.4'', 120000), (''1.2.3.4'', 0), (''1.2.3.4'', 60000)])"

text \<open>Three requests of one identifier in the last second before the first daily reset
  of a process loaded at time 0.\<close>

definition beforeRollover :: rl_state where
  "beforeRollover =
     snd (checks (coldStart 0)
       [(''1.2.3.4'', 86399000), (''1.2.3.4'', 86399500), (''1.2.3.4'', 86400000)])"

text \<open>A state whose daily counter has reached the cap.\<close>

definition cappedState :: rl_state where
  "cappedState =
     \<lparr>ipStore = Map.empty(''1.2.3.4'' \<mapsto> [10, 20]), dailyCount = 100, dailyReset = 86400000\<rparr>"

text \<open>A request that came through a proxy, with a prompt that is too short.\<close>

definition proxiedRequest :: request where
  "proxiedRequest =
     \<lparr>method_name = ''POST'',
      headers = [''x-forwarded-for'' \<mapsto> '' 203.0.113.7 , 10.0.0.1'', ''x-real-ip'' \<mapsto> ''10.0.0.1''],
      socket = Some \<lparr>remoteAddress = Some ''10.0.0.2''\<rparr>,
      body = JObj [(''prompt'', JStr ''too short'')]\<rparr>"

text \<open>A request whose prompt has \<open>n\<close> characters.\<close>

definition promptRequest :: "nat \<Rightarrow> request" where
  "promptRequest n = proxiedRequest\<lparr>body := JObj [(''prompt'', JStr (replicate n CHR ''a''))]\<rparr>"

text \<open>A parser and a network for the examples: the two addresses of the specification's
  example parse as the platform parses them, one site answers, one page is missing there,
  and no other host is found.\<close>

definition exampleURL :: "string \<Rightarrow> url option" where
  "exampleURL u =
     (if u = ''https://example.com'' then Some \<lparr>protocol = ''https:'', href = ''https://example.com/''\<rparr>
      else if u = ''https://example.com/missing''
      then Some \<lparr>protocol = ''https:'', href = ''https://example.com/missing''\<rparr>
      else if u = ''http://nowhere.invalid''
      then Some \<lparr>protocol = ''http:'', href = ''http://nowhere.invalid/''\<rparr>
      else if u = ''ftp://x.com'' then Some \<lparr>protocol = ''ftp:'', href = ''ftp://x.com/''\<rparr>
      else None)"

definition exampleFetch :: "string \<Rightarrow> fetch_outcome" where
  "exampleFetch target =
     (if target = ''https://example.com/''
      then FetchResolves \<lparr>ok = True, status = 200, bodyText = Inr ''<html></html>''\<rparr>
      else if target = ''https://example.com/missing''
      then FetchResolves \<lparr>ok = False, status = 404, bodyText = Inr ''not found''\<rparr>
      else FetchThrows ''getaddrinfo ENOTFOUND'')"

text \<open>A POST request to the fetch endpoint for the address \<open>u\<close>.\<close>

definition urlRequest :: "string \<Rightarrow> request" where
  "urlRequest u = \<lparr>method_name = ''POST'', headers = Map.empty, socket = None,
     body = JObj [(''url'', JStr u)]\<rparr>"

section \<open>Properties of the admission check\<close>

lemma afterReset_simps:
  "ipStore (afterReset s now) = ipStore s"
  "dailyCount (afterReset s now) = countSeen s now"
  "dailyReset (afterReset s now) = (if now > dailyReset s then now + 24 * 60 * 60 * 1000 else dailyReset s)"
  by (simp_all add: afterReset_def countSeen_def)

lemma check_global_denied:
  assumes "DAILY_GLOBAL_CAP \<le> countSeen s now"
  shows "checkRateLimit ip now s = (\<lparr>allowed = False, reason = Some dailyLimitReason\<rparr>, afterReset s now)"
  using assms by (cases "now > dailyReset s") (simp_all add: checkRateLimit_def afterReset_def countSeen_def Let_def DAILY_GLOBAL_CAP_def)

lemma check_ip_denied:
  assumes "countSeen s now < DAILY_GLOBAL_CAP" and "RATE_LIMIT_MAX \<le> length (surviving s ip now)"
  shows "checkRateLimit ip now s =
    (\<lparr>allowed = False,
      reason = Some (hourlyLimitReason (ceilDiv (surviving s ip now ! 0 + RATE_LIMIT_WINDOW - now) 60000))\<rparr>,
     afterReset s now)"
  using assms by (cases "now > dailyReset s") (simp_all add: checkRateLimit_def afterReset_def countSeen_def surviving_def Let_def DAILY_GLOBAL_CAP_def)

lemma check_allowed:
  assumes "countSeen s now < DAILY_GLOBAL_CAP" and "length (surviving s ip now) < RATE_LIMIT_MAX"
  shows "checkRateLimit ip now s =
    (\<lparr>allowed = True, reason = None\<rparr>,
     (afterReset s now)\<lparr>ipStore := (ipStore s)(ip \<mapsto> surviving s ip now @ [now]),
        dailyCount := countSeen s now + 1\<rparr>)"
  using assms by (cases "now > dailyReset s") (simp_all add: checkRateLimit_def afterReset_def countSeen_def surviving_def Let_def DAILY_GLOBAL_CAP_def)

lemma ceilDiv_ceiling: "ceilDiv a b = \<lceil>real_of_int a / real_of_int b\<rceil>"
  by (simp add: ceilDiv_def ceiling_divide_eq_div)

lemma natToString_digit: "n < 10 \<Longrightarrow> natToString n = [digitChars ! n]"
  by (simp add: natToString.simps)

lemma natToString_two:
  "10 \<le> n \<Longrightarrow> n < 100 \<Longrightarrow> natToString n = [digitChars ! (n div 10), digitChars ! (n mod 10)]"
  by (subst natToString.simps) (simp add: natToString_digit)

lemma hourlyLimitReason_text:
  "hourlyLimitReason r =
     ''You've used your 3 free analyses for this hour. Try again in ~'' @ numToString r @
     (if r = 1 then '' minute.'' else '' minutes.'')"
  by (simp add: hourlyLimitReason_def RATE_LIMIT_MAX_def numToString_def natToString_digit digitChars_def)

lemma surviving_in_window: "t \<in> set (surviving s ip now) \<Longrightarrow> now - t < RATE_LIMIT_WINDOW"
  by (simp add: surviving_def)

lemma surviving_stored:
  "t \<in> set (surviving s ip now) \<Longrightarrow> \<exists>ts. ipStore s ip = Some ts \<and> t \<in> set ts"
  by (cases "ipStore s ip") (simp_all add: surviving_def)

lemma retryMinutes_ceilDiv:
  "retryMinutes s ip now = ceilDiv (surviving s ip now ! 0 + RATE_LIMIT_WINDOW - now) 60000"
  by (simp add: retryMinutes_def ceilDiv_ceiling)

lemma countSeen_le: "dailyCount s \<le> k \<Longrightarrow> 0 \<le> k \<Longrightarrow> countSeen s now \<le> k"
  by (simp add: countSeen_def)

lemma allowed_step:
  assumes "countSeen s now < DAILY_GLOBAL_CAP" and "length (surviving s ip now) < RATE_LIMIT_MAX"
  shows "fst (checkRateLimit ip now s) = \<lparr>allowed = True, reason = None\<rparr>"
    and "ipStore (snd (checkRateLimit ip now s)) = (ipStore s)(ip \<mapsto> surviving s ip now @ [now])"
    and "dailyCount (snd (checkRateLimit ip now s)) = countSeen s now + 1"
    and "dailyReset (snd (checkRateLimit ip now s)) = dailyReset (afterReset s now)"
  using check_allowed [OF assms] by simp_all

lemma hourly_example:
  assumes fresh: "ipStore s ip = None" and cnt: "dailyCount s \<le> 96"
  shows "fst (checks s [(ip, t0), (ip, t0 + 60000), (ip, t0 + 120000), (ip, t0 + 180000)]) =
     [\<lparr>allowed = True, reason = None\<rparr>, \<lparr>allowed = True, reason = None\<rparr>,
      \<lparr>allowed = True, reason = None\<rparr>,
      \<lparr>allowed = False,
        reason = Some ''You've used your 3 free analyses for this hour. Try again in ~57 minutes.''\<rparr>]"
proof -
  define s1 where "s1 = snd (checkRateLimit ip t0 s)"
  define s2 where "s2 = snd (checkRateLimit ip (t0 + 60000) s1)"
  define s3 where "s3 = snd (checkRateLimit ip (t0 + 120000) s2)"
  have c0: "countSeen s t0 < DAILY_GLOBAL_CAP"
    using countSeen_le [OF cnt, of t0] by (simp add: DAILY_GLOBAL_CAP_def)
  have v0: "surviving s ip t0 = []"
    using fresh by (simp add: surviving_def)
  have l0: "length (surviving s ip t0) < RATE_LIMIT_MAX"
    by (simp add: v0 RATE_LIMIT_MAX_def)
  note a0 = allowed_step [OF c0 l0, folded s1_def]
  have st1: "ipStore s1 ip = Some [t0]" and n1: "dailyCount s1 \<le> 97"
    using a0(2,3) countSeen_le [OF cnt, of t0] by (simp_all add: v0)
  have c1: "countSeen s1 (t0 + 60000) < DAILY_GLOBAL_CAP"
    using countSeen_le [OF n1, of "t0 + 60000"] by (simp add: DAILY_GLOBAL_CAP_def)
  have v1: "surviving s1 ip (t0 + 60000) = [t0]"
    using st1 by (simp add: surviving_def RATE_LIMIT_WINDOW_def)
  have l1: "length (surviving s1 ip (t0 + 60000)) < RATE_LIMIT_MAX"
    by (simp add: v1 RATE_LIMIT_MAX_def)
  note a1 = allowed_step [OF c1 l1, folded s2_def]
  have st2: "ipStore s2 ip = Some [t0, t0 + 60000]" and n2: "dailyCount s2 \<le> 98"
    using a1(2,3) countSeen_le [OF n1, of "t0 + 60000"] by (simp_all add: v1)
  have c2: "countSeen s2 (t0 + 120000) < DAILY_GLOBAL_CAP"
    using countSeen_le [OF n2, of "t0 + 120000"] by (simp add: DAILY_GLOBAL_CAP_def)
  have v2: "surviving s2 ip (t0 + 120000) = [t0, t0 + 60000]"
    using st2 by (simp add: surviving_def RATE_LIMIT_WINDOW_def)
  have l2: "length (surviving s2 ip (t0 + 120000)) < RATE_LIMIT_MAX"
    by (simp add: v2 RATE_LIMIT_MAX_def)
  note a2 = allowed_step [OF c2 l2, folded s3_def]
  have st3: "ipStore s3 ip = Some [t0, t0 + 60000, t0 + 120000]" and n3: "dailyCount s3 \<le> 99"
    using a2(2,3) countSeen_le [OF n2, of "t0 + 120000"] by (simp_all add: v2)
  have c3: "countSeen s3 (t0 + 180000) < DAILY_GLOBAL_CAP"
    using countSeen_le [OF n3, of "t0 + 180000"] by (simp add: DAILY_GLOBAL_CAP_def)
  have v3: "surviving s3 ip (t0 + 180000) = [t0, t0 + 60000, t0 + 120000]"
    using st3 by (simp add: surviving_def RATE_LIMIT_WINDOW_def)
  have l3: "RATE_LIMIT_MAX \<le> length (surviving s3 ip (t0 + 180000))"
    by (simp add: v3 RATE_LIMIT_MAX_def)
  have r: "ceilDiv (surviving s3 ip (t0 + 180000) ! 0 + RATE_LIMIT_WINDOW - (t0 + 180000)) 60000 = 57"
    by (simp add: v3 RATE_LIMIT_WINDOW_def ceilDiv_def)
  have d3: "fst (checkRateLimit ip (t0 + 180000) s3) =
      \<lparr>allowed = False,
        reason = Some ''You've used your 3 free analyses for this hour. Try again in ~57 minutes.''\<rparr>"
    unfolding check_ip_denied [OF c3 l3] r hourlyLimitReason_text
    by (simp add: numToString_def natToString_two digitChars_def)
  show ?thesis
    using a0(1) a1(1) a2(1) d3
    by (simp add: split_beta Let_def s1_def s2_def s3_def)
qed

lemma snd_check_cases:
  "snd (checkRateLimit ip now s) = afterReset s now \<or>
   snd (checkRateLimit ip now s) =
     (afterReset s now)\<lparr>ipStore := (ipStore s)(ip \<mapsto> surviving s ip now @ [now]),
        dailyCount := countSeen s now + 1\<rparr>"
proof (cases "countSeen s now < DAILY_GLOBAL_CAP")
  case False
  then show ?thesis by (simp add: check_global_denied)
next
  case cap: True
  show ?thesis
  proof (cases "length (surviving s ip now) < RATE_LIMIT_MAX")
    case True
    with cap show ?thesis by (simp add: check_allowed)
  next
    case False
    with cap show ?thesis by (simp add: check_ip_denied)
  qed
qed

lemma retry_lower:
  assumes full: "RATE_LIMIT_MAX \<le> length (surviving s ip now)"
  shows "1 \<le> retryMinutes s ip now"
proof -
  let ?t = "surviving s ip now ! 0"
  from full have "?t \<in> set (surviving s ip now)"
    by (cases "surviving s ip now") (simp_all add: RATE_LIMIT_MAX_def)
  then have "now - ?t < RATE_LIMIT_WINDOW" by (rule surviving_in_window)
  then have "0 < ?t + RATE_LIMIT_WINDOW - now" by simp
  then have "1 \<le> ceilDiv (?t + RATE_LIMIT_WINDOW - now) 60000"
    unfolding ceilDiv_def by linarith
  then show ?thesis by (simp add: retryMinutes_ceilDiv)
qed

lemma retry_upper:
  assumes full: "RATE_LIMIT_MAX \<le> length (surviving s ip now)"
    and past: "\<forall>t\<in>set (surviving s ip now). t \<le> now"
  shows "retryMinutes s ip now \<le> 60"
proof -
  let ?t = "surviving s ip now ! 0"
  from full have "?t \<in> set (surviving s ip now)"
    by (cases "surviving s ip now") (simp_all add: RATE_LIMIT_MAX_def)
  with past have "?t \<le> now" by blast
  then have "?t + RATE_LIMIT_WINDOW - now \<le> 3600000"
    by (simp add: RATE_LIMIT_WINDOW_def)
  then have "ceilDiv (?t + RATE_LIMIT_WINDOW - now) 60000 \<le> 60"
    unfolding ceilDiv_def by linarith
  then show ?thesis by (simp add: retryMinutes_ceilDiv)
qed

lemma chronological_mono: "chronological s T \<Longrightarrow> T \<le> T' \<Longrightarrow> chronological s T'"
  unfolding chronological_def by (meson order_trans)

lemma chronological_coldStart: "chronological (coldStart t0) T"
  by (simp add: chronological_def coldStart_def)

lemma chronological_surviving:
  assumes "chronological s T"
  shows "sorted (surviving s ip now) \<and> (\<forall>t\<in>set (surviving s ip now). t \<le> T)"
proof (cases "ipStore s ip")
  case None
  then show ?thesis by (simp add: surviving_def)
next
  case (Some ts)
  with assms have "sorted ts" and "\<forall>t\<in>set ts. t \<le> T"
    by (simp_all add: chronological_def)
  with Some show ?thesis
    by (simp add: surviving_def sorted_wrt_filter)
qed

lemma chronological_step:
  assumes "chronological s T" and "T \<le> now"
  shows "chronological (snd (checkRateLimit ip now s)) now"
proof -
  from assms have base: "chronological s now" by (rule chronological_mono)
  from chronological_surviving [OF assms(1), of ip now] assms(2)
  have new: "sorted (surviving s ip now @ [now])" "\<forall>t\<in>set (surviving s ip now @ [now]). t \<le> now"
    by (auto simp: sorted_append)
  have "chronological ((afterReset s now)\<lparr>ipStore := (ipStore s)(ip \<mapsto> surviving s ip now @ [now]),
        dailyCount := countSeen s now + 1\<rparr>) now"
    unfolding chronological_def
  proof (intro allI impI)
    fix ip' ts
    assume st: "ipStore ((afterReset s now)\<lparr>ipStore := (ipStore s)(ip \<mapsto> surviving s ip now @ [now]),
        dailyCount := countSeen s now + 1\<rparr>) ip' = Some ts"
    show "sorted ts \<and> (\<forall>t\<in>set ts. t \<le> now)"
    proof (cases "ip' = ip")
      case True
      with st have "ts = surviving s ip now @ [now]" by simp
      with new show ?thesis by simp
    next
      case False
      with st have "ipStore s ip' = Some ts" by simp
      with base show ?thesis by (simp add: chronological_def)
    qed
  qed
  moreover have "chronological (afterReset s now) now"
    using base by (simp add: chronological_def afterReset_simps)
  ultimately show ?thesis
    using snd_check_cases [of ip now s] by auto
qed

lemma chronological_checks:
  assumes "chronological s T" and "sorted (map snd es)"
    and "\<forall>e\<in>set es. T \<le> snd e \<and> snd e \<le> T'" and "T \<le> T'"
  shows "chronological (snd (checks s es)) T'"
  using assms
proof (induction es arbitrary: s T)
  case Nil
  then show ?case by (simp add: chronological_mono)
next
  case (Cons e es)
  obtain ip now where e: "e = (ip, now)" by (cases e)
  from Cons.prems have b: "T \<le> now" "now \<le> T'" by (simp_all add: e)
  from Cons.prems(1) b(1) have "chronological (snd (checkRateLimit ip now s)) now"
    by (rule chronological_step)
  moreover from Cons.prems(2) have "sorted (map snd es)" by simp
  moreover from Cons.prems(2,3) have "\<forall>e'\<in>set es. now \<le> snd e' \<and> snd e' \<le> T'"
    by (auto simp: e)
  ultimately have "chronological (snd (checks (snd (checkRateLimit ip now s)) es)) T'"
    using b(2) by (rule Cons.IH)
  then show ?case by (simp add: e split_beta)
qed

lemma chronological_reached:
  assumes "sorted (map snd es)" and "\<forall>e\<in>set es. snd e \<le> now"
  shows "chronological (snd (checks (coldStart t0) es)) now"
proof (cases es)
  case Nil
  then show ?thesis by (simp add: chronological_coldStart)
next
  case (Cons e es')
  have "chronological (coldStart t0) (snd e)" by (rule chronological_coldStart)
  moreover from assms have "\<forall>e'\<in>set es. snd e \<le> snd e' \<and> snd e' \<le> now"
    by (auto simp: Cons)
  moreover from assms have "snd e \<le> now" by (simp add: Cons)
  ultimately show ?thesis
    using assms(1) by (intro chronological_checks [where T = "snd e"]) simp_all
qed

lemma sorted_first_Min:
  fixes xs :: "int list"
  assumes "sorted xs" and "xs \<noteq> []"
  shows "xs ! 0 = Min (set xs)"
proof (cases xs)
  case Nil
  with assms show ?thesis by simp
next
  case (Cons x ys)
  with assms have "\<forall>y\<in>set ys. x \<le> y" by simp
  then have "Min (insert x (set ys)) = x"
    by (intro Min_insert2) simp_all
  with Cons show ?thesis by simp
qed

lemma retry_reached:
  assumes ord: "sorted (map snd es)" and past: "\<forall>e\<in>set es. snd e \<le> now"
    and full: "RATE_LIMIT_MAX \<le> length (surviving (snd (checks (coldStart t0) es)) ip now)"
  shows "surviving (snd (checks (coldStart t0) es)) ip now ! 0 =
      oldestSurviving (snd (checks (coldStart t0) es)) ip now"
    and "retryMinutes (snd (checks (coldStart t0) es)) ip now =
      oldestRetryMinutes (snd (checks (coldStart t0) es)) ip now"
    and "retryMinutes (snd (checks (coldStart t0) es)) ip now \<le> 60"
proof -
  let ?s = "snd (checks (coldStart t0) es)"
  have c: "chronological ?s now"
    using ord past by (rule chronological_reached)
  from full have ne: "surviving ?s ip now \<noteq> []"
    by (auto simp: RATE_LIMIT_MAX_def)
  from chronological_surviving [OF c, of ip now]
  have srt: "sorted (surviving ?s ip now)" and le: "\<forall>t\<in>set (surviving ?s ip now). t \<le> now"
    by simp_all
  show first: "surviving ?s ip now ! 0 = oldestSurviving ?s ip now"
    unfolding oldestSurviving_def using srt ne by (rule sorted_first_Min)
  then show "retryMinutes ?s ip now = oldestRetryMinutes ?s ip now"
    by (simp add: retryMinutes_def oldestRetryMinutes_def)
  from full le show "retryMinutes ?s ip now \<le> 60"
    by (rule retry_upper)
qed

lemma clockSetBack_eq:
  "clockSetBack =
     \<lparr>ipStore = Map.empty(''1.2.3.4'' \<mapsto> [10000000, 10000000, 10000000]), dailyCount = 3,
      dailyReset = 86400000\<rparr>"
  by (simp add: clockSetBack_def coldStart_def checkRateLimit_def Let_def
      DAILY_GLOBAL_CAP_def RATE_LIMIT_MAX_def RATE_LIMIT_WINDOW_def)

lemma clockOutOfOrder_eq:
  "clockOutOfOrder =
     \<lparr>ipStore = Map.empty(''1.2.3.4'' \<mapsto> [120000, 0, 60000]), dailyCount = 3,
      dailyReset = 86400000\<rparr>"
  by (simp add: clockOutOfOrder_def coldStart_def checkRateLimit_def Let_def
      DAILY_GLOBAL_CAP_def RATE_LIMIT_MAX_def RATE_LIMIT_WINDOW_def)

lemma natToString_three:
  "100 \<le> n \<Longrightarrow> n < 1000 \<Longrightarrow>
     natToString n = [digitChars ! (n div 100), digitChars ! (n div 10 mod 10), digitChars ! (n mod 10)]"
  by (subst natToString.simps) (simp add: natToString_two div_mult2_eq [symmetric])

text \<open>
  Claim C1 as stated fails where the clock does not run forward. Set back to 0 after three
  requests at 10000000, the fourth request is denied with a retry-after of 227 minutes,
  above 60. With requests recorded at 120000, 0 and 60000 in that order, a request at
  180000 is denied with 59 minutes, computed from the first stored timestamp, where the
  oldest surviving timestamp gives 57.
\<close>

theorem retry_after_clock_counterexample:
  "countSeen clockSetBack 0 < DAILY_GLOBAL_CAP \<and>
   surviving clockSetBack ''1.2.3.4'' 0 = [10000000, 10000000, 10000000] \<and>
   fst (checkRateLimit ''1.2.3.4'' 0 clockSetBack) =
     \<lparr>allowed = False,
       reason = Some ''You've used your 3 free analyses for this hour. Try again in ~227 minutes.''\<rparr> \<and>
   countSeen clockOutOfOrder 180000 < DAILY_GLOBAL_CAP \<and>
   surviving clockOutOfOrder ''1.2.3.4'' 180000 = [120000, 0, 60000] \<and>
   fst (checkRateLimit ''1.2.3.4'' 180000 clockOutOfOrder) =
     \<lparr>allowed = False,
       reason = Some ''You've used your 3 free analyses for this hour. Try again in ~59 minutes.''\<rparr> \<and>
   oldestSurviving clockOutOfOrder ''1.2.3.4'' 180000 = 0 \<and>
   oldestRetryMinutes clockOutOfOrder ''1.2.3.4'' 180000 = 57"
proof -
  have c1: "countSeen clockSetBack 0 < DAILY_GLOBAL_CAP"
    by (simp add: clockSetBack_eq countSeen_def DAILY_GLOBAL_CAP_def)
  have s1: "surviving clockSetBack ''1.2.3.4'' 0 = [10000000, 10000000, 10000000]"
    by (simp add: clockSetBack_eq surviving_def RATE_LIMIT_WINDOW_def)
  have l1: "RATE_LIMIT_MAX \<le> length (surviving clockSetBack ''1.2.3.4'' 0)"
    by (simp add: s1 RATE_LIMIT_MAX_def)
  have r1: "ceilDiv (surviving clockSetBack ''1.2.3.4'' 0 ! 0 + RATE_LIMIT_WINDOW - 0) 60000 = 227"
    by (simp add: s1 RATE_LIMIT_WINDOW_def ceilDiv_def)
  have d1: "fst (checkRateLimit ''1.2.3.4'' 0 clockSetBack) =
     \<lparr>allowed = False,
       reason = Some ''You've used your 3 free analyses for this hour. Try again in ~227 minutes.''\<rparr>"
    unfolding check_ip_denied [OF c1 l1] r1 hourlyLimitReason_text
    by (simp add: numToString_def natToString_three digitChars_def)
  have c2: "countSeen clockOutOfOrder 180000 < DAILY_GLOBAL_CAP"
    by (simp add: clockOutOfOrder_eq countSeen_def DAILY_GLOBAL_CAP_def)
  have s2: "surviving clockOutOfOrder ''1.2.3.4'' 180000 = [120000, 0, 60000]"
    by (simp add: clockOutOfOrder_eq surviving_def RATE_LIMIT_WINDOW_def)
  have l2: "RATE_LIMIT_MAX \<le> length (surviving clockOutOfOrder ''1.2.3.4'' 180000)"
    by (simp add: s2 RATE_LIMIT_MAX_def)
  have r2: "ceilDiv (surviving clockOutOfOrder ''1.2.3.4'' 180000 ! 0 + RATE_LIMIT_WINDOW - 180000) 60000 = 59"
    by (simp add: s2 RATE_LIMIT_WINDOW_def ceilDiv_def)
  have d2: "fst (checkRateLimit ''1.2.3.4'' 180000 clockOutOfOrder) =
     \<lparr>allowed = False,
       reason = Some ''You've used your 3 free analyses for this hour. Try again in ~59 minutes.''\<rparr>"
    unfolding check_ip_denied [OF c2 l2] r2 hourlyLimitReason_text
    by (simp add: numToString_def natToString_two digitChars_def)
  have o2: "oldestSurviving clockOutOfOrder ''1.2.3.4'' 180000 = 0"
    by (simp add: oldestSurviving_def s2)
  have m2: "oldestRetryMinutes clockOutOfOrder ''1.2.3.4'' 180000 = 57"
    unfolding oldestRetryMinutes_def o2 ceilDiv_ceiling [of _ 60000, simplified, symmetric]
    by (simp add: RATE_LIMIT_WINDOW_def ceilDiv_def)
  from c1 s1 d1 c2 s2 d2 o2 m2 show ?thesis by blast
qed

text \<open>
  Claim C1, amended. When the counter seen by the call is below the daily cap and the
  identifier's timestamps that survive pruning already number three (max-per-window) or
  more, the call is denied. The retry-after value printed in the reason is the ceiling of
  (first surviving timestamp in stored order + window - now) in minutes; it is at least 1,
  and at most 60 when no surviving timestamp lies after the current clock reading. In a
  state reached from a cold start by calls whose clock readings never decrease and do not
  exceed the current one, the first surviving timestamp is the oldest, so the value is the
  ceiling of (oldest surviving timestamp + window - now) in minutes, and it is at most 60.
  The reason says ``minute'' exactly when the value is 1 and ``minutes'' otherwise. In
  particular four requests of a fresh identifier at minutes 0, 1, 2 and 3 (counted from
  any instant) are allowed three times and then denied with ``~57 minutes''.
\<close>

theorem hourly_denial_retry_after:
  "(countSeen s now < DAILY_GLOBAL_CAP \<and> RATE_LIMIT_MAX \<le> length (surviving s ip now) \<longrightarrow>
      fst (checkRateLimit ip now s) =
        \<lparr>allowed = False,
          reason = Some (''You've used your 3 free analyses for this hour. Try again in ~'' @
            numToString (retryMinutes s ip now) @
            (if retryMinutes s ip now = 1 then '' minute.'' else '' minutes.''))\<rparr> \<and>
      1 \<le> retryMinutes s ip now \<and>
      ((\<forall>t\<in>set (surviving s ip now). t \<le> now) \<longrightarrow> retryMinutes s ip now \<le> 60)) \<and>
   (sorted (map snd es) \<and> (\<forall>e\<in>set es. snd e \<le> now) \<and>
    RATE_LIMIT_MAX \<le> length (surviving (snd (checks (coldStart boot) es)) ip now) \<longrightarrow>
      surviving (snd (checks (coldStart boot) es)) ip now ! 0 =
        oldestSurviving (snd (checks (coldStart boot) es)) ip now \<and>
      retryMinutes (snd (checks (coldStart boot) es)) ip now =
        oldestRetryMinutes (snd (checks (coldStart boot) es)) ip now \<and>
      retryMinutes (snd (checks (coldStart boot) es)) ip now \<le> 60) \<and>
   (ipStore s' ip' = None \<and> dailyCount s' \<le> 96 \<longrightarrow>
      fst (checks s' [(ip', start), (ip', start + 60000), (ip', start + 120000), (ip', start + 180000)]) =
        [\<lparr>allowed = True, reason = None\<rparr>, \<lparr>allowed = True, reason = None\<rparr>,
         \<lparr>allowed = True, reason = None\<rparr>,
         \<lparr>allowed = False,
           reason = Some ''You've used your 3 free analyses for this hour. Try again in ~57 minutes.''\<rparr>])"
proof (intro conjI impI)
  assume h: "countSeen s now < DAILY_GLOBAL_CAP \<and> RATE_LIMIT_MAX \<le> length (surviving s ip now)"
  then show "fst (checkRateLimit ip now s) =
        \<lparr>allowed = False,
          reason = Some (''You've used your 3 free analyses for this hour. Try again in ~'' @
            numToString (retryMinutes s ip now) @
            (if retryMinutes s ip now = 1 then '' minute.'' else '' minutes.''))\<rparr>"
    by (simp only: check_ip_denied fst_conv hourlyLimitReason_text retryMinutes_def ceilDiv_ceiling
        of_int_numeral)
  from h show "1 \<le> retryMinutes s ip now"
    by (simp add: retry_lower)
  assume "\<forall>t\<in>set (surviving s ip now). t \<le> now"
  with h show "retryMinutes s ip now \<le> 60"
    by (simp add: retry_upper)
next
  assume h: "sorted (map snd es) \<and> (\<forall>e\<in>set es. snd e \<le> now) \<and>
    RATE_LIMIT_MAX \<le> length (surviving (snd (checks (coldStart boot) es)) ip now)"
  then show "surviving (snd (checks (coldStart boot) es)) ip now ! 0 =
        oldestSurviving (snd (checks (coldStart boot) es)) ip now"
    by (intro retry_reached(1)) simp_all
  from h show "retryMinutes (snd (checks (coldStart boot) es)) ip now =
        oldestRetryMinutes (snd (checks (coldStart boot) es)) ip now"
    by (intro retry_reached(2)) simp_all
  from h show "retryMinutes (snd (checks (coldStart boot) es)) ip now \<le> 60"
    by (intro retry_reached(3)) simp_all
next
  assume "ipStore s' ip' = None \<and> dailyCount s' \<le> 96"
  then show "fst (checks s' [(ip', start), (ip', start + 60000), (ip', start + 120000), (ip', start + 180000)]) =
        [\<lparr>allowed = True, reason = None\<rparr>, \<lparr>allowed = True, reason = None\<rparr>,
         \<lparr>allowed = True, reason = None\<rparr>,
         \<lparr>allowed = False,
           reason = Some ''You've used your 3 free analyses for this hour. Try again in ~57 minutes.''\<rparr>]"
    using hourly_example [of s' ip' start] by simp
qed

lemma exState_reached:
  "snd (checks (coldStart 0) [(''1.2.3.4'', 0), (''1.2.3.4'', 60000), (''1.2.3.4'', 120000)]) = exState"
  by (simp add: exState_def coldStart_def checkRateLimit_def Let_def
      DAILY_GLOBAL_CAP_def RATE_LIMIT_MAX_def RATE_LIMIT_WINDOW_def)

theorem hourly_denial_retry_after_witness:
  "countSeen exState 3599999 < DAILY_GLOBAL_CAP \<and>
   RATE_LIMIT_MAX \<le> length (surviving exState ''1.2.3.4'' 3599999) \<and>
   list_all (\<lambda>t. t \<le> 3599999) (surviving exState ''1.2.3.4'' 3599999) \<and>
   fst (checkRateLimit ''1.2.3.4'' 3599999 exState) =
     \<lparr>allowed = False,
       reason = Some ''You've used your 3 free analyses for this hour. Try again in ~1 minute.''\<rparr> \<and>
   retryMinutes exState ''1.2.3.4'' 3599999 = 1 \<and>
   sorted (map snd [(''1.2.3.4'', 0 :: int), (''1.2.3.4'', 60000), (''1.2.3.4'', 120000)]) \<and>
   list_all (\<lambda>e. snd e \<le> (180000 :: int))
     [(''1.2.3.4'', 0), (''1.2.3.4'', 60000), (''1.2.3.4'', 120000)] \<and>
   snd (checks (coldStart 0) [(''1.2.3.4'', 0), (''1.2.3.4'', 60000), (''1.2.3.4'', 120000)]) = exState \<and>
   surviving exState ''1.2.3.4'' 180000 = [0, 60000, 120000] \<and>
   oldestSurviving exState ''1.2.3.4'' 180000 = 0 \<and>
   oldestRetryMinutes exState ''1.2.3.4'' 180000 = 57 \<and>
   retryMinutes exState ''1.2.3.4'' 180000 = 57 \<and>
   ipStore (coldStart 0) ''1.2.3.4'' = None \<and> dailyCount (coldStart 0) \<le> 96 \<and>
   fst (checks (coldStart 0) [(''1.2.3.4'', 0), (''1.2.3.4'', 60000), (''1.2.3.4'', 120000),
       (''1.2.3.4'', 180000)]) =
     [\<lparr>allowed = True, reason = None\<rparr>, \<lparr>allowed = True, reason = None\<rparr>,
      \<lparr>allowed = True, reason = None\<rparr>,
      \<lparr>allowed = False,
        reason = Some ''You've used your 3 free analyses for this hour. Try again in ~57 minutes.''\<rparr>]"
proof -
  let ?es = "[(''1.2.3.4'', 0 :: int), (''1.2.3.4'', 60000), (''1.2.3.4'', 120000)]"
  have sv: "surviving exState ''1.2.3.4'' 3599999 = [0, 60000, 120000]"
    and sv': "surviving exState ''1.2.3.4'' 180000 = [0, 60000, 120000]"
    by (simp_all add: surviving_def exState_def RATE_LIMIT_WINDOW_def)
  have cs: "countSeen exState 3599999 = 3"
    by (simp add: countSeen_def exState_def)
  have rm: "retryMinutes exState ''1.2.3.4'' 3599999 = 1"
    by (simp add: retryMinutes_ceilDiv sv RATE_LIMIT_WINDOW_def ceilDiv_def)
  have rm': "retryMinutes exState ''1.2.3.4'' 180000 = 57"
    by (simp add: retryMinutes_ceilDiv sv' RATE_LIMIT_WINDOW_def ceilDiv_def)
  have one: "numToString 1 = ''1''"
    by (simp add: numToString_def natToString_digit digitChars_def)
  have cold: "ipStore (coldStart 0) ''1.2.3.4'' = None" "dailyCount (coldStart 0) \<le> 96"
    by (simp_all add: coldStart_def)
  have ord: "sorted (map snd ?es)" "list_all (\<lambda>e. snd e \<le> (180000 :: int)) ?es"
    by simp_all
  note T1 = hourly_denial_retry_after [where s = exState and now = 3599999 and ip = "''1.2.3.4''"
        and es = "[]" and boot = 0 and s' = "coldStart 0" and ip' = "''1.2.3.4''" and start = 0]
  note T2 = hourly_denial_retry_after [where s = exState and now = 180000 and ip = "''1.2.3.4''"
        and es = ?es and boot = 0 and s' = "coldStart 0" and ip' = "''1.2.3.4''" and start = 0]
  from T1 have p1: "fst (checkRateLimit ''1.2.3.4'' 3599999 exState) =
     \<lparr>allowed = False,
       reason = Some ''You've used your 3 free analyses for this hour. Try again in ~1 minute.''\<rparr>"
    by (simp del: checks.simps add: sv cs rm one DAILY_GLOBAL_CAP_def RATE_LIMIT_MAX_def)
  from T1 cold have p3: "fst (checks (coldStart 0) [(''1.2.3.4'', 0), (''1.2.3.4'', 60000),
       (''1.2.3.4'', 120000), (''1.2.3.4'', 180000)]) =
     [\<lparr>allowed = True, reason = None\<rparr>, \<lparr>allowed = True, reason = None\<rparr>,
      \<lparr>allowed = True, reason = None\<rparr>,
      \<lparr>allowed = False,
        reason = Some ''You've used your 3 free analyses for this hour. Try again in ~57 minutes.''\<rparr>]"
    by (simp del: checks.simps)
  from T2 have p2: "surviving exState ''1.2.3.4'' 180000 ! 0 = oldestSurviving exState ''1.2.3.4'' 180000"
    "retryMinutes exState ''1.2.3.4'' 180000 = oldestRetryMinutes exState ''1.2.3.4'' 180000"
    by (simp_all del: checks.simps add: exState_reached sv' RATE_LIMIT_MAX_def)
  from p2 have o: "oldestSurviving exState ''1.2.3.4'' 180000 = 0"
    "oldestRetryMinutes exState ''1.2.3.4'' 180000 = 57"
    by (simp_all add: sv' rm')
  from p1 p3 o rm rm' ord cold show ?thesis
    by (simp del: checks.simps add: sv sv' cs exState_reached DAILY_GLOBAL_CAP_def RATE_LIMIT_MAX_def)
qed

lemma surviving_stored_eq:
  "surviving s ip now = filter (\<lambda>t. now - t < RATE_LIMIT_WINDOW) (stored s ip)"
  by (simp add: surviving_def stored_def)

lemma surviving_length_le: "length (surviving s ip now) \<le> length (stored s ip)"
  by (simp add: surviving_stored_eq)

lemma stored_after_allowed:
  assumes "countSeen s now < DAILY_GLOBAL_CAP" and "length (surviving s ip now) < RATE_LIMIT_MAX"
  shows "stored (snd (checkRateLimit ip now s)) ip = surviving s ip now @ [now]"
  using allowed_step(2) [OF assms] by (simp add: stored_def)

lemma each_below_all_allowed:
  "eachBelowLimits s es \<Longrightarrow> fst (checks s es) = replicate (length es) allowedResult"
proof (induction es arbitrary: s)
  case Nil
  then show ?case by simp
next
  case (Cons e es)
  obtain ip now where e: "e = (ip, now)" by (cases e)
  from Cons.prems have c: "countSeen s now < DAILY_GLOBAL_CAP"
    and l: "length (surviving s ip now) < RATE_LIMIT_MAX"
    and rest: "eachBelowLimits (snd (checkRateLimit ip now s)) es"
    by (simp_all add: e)
  from rest have "fst (checks (snd (checkRateLimit ip now s)) es) = replicate (length es) allowedResult"
    by (rule Cons.IH)
  with allowed_step(1) [OF c l] show ?case
    by (simp add: e split_beta allowedResult_def)
qed

lemma quota_replenished:
  assumes old: "\<forall>t\<in>set (stored s ip). RATE_LIMIT_WINDOW \<le> T - t"
    and cnt: "dailyCount s \<le> 97"
    and t1: "T \<le> t1" and t2: "T \<le> t2" and t3: "T \<le> t3"
  shows "eachBelowLimits s [(ip, t1), (ip, t2), (ip, t3)]"
proof -
  define s1 where "s1 = snd (checkRateLimit ip t1 s)"
  define s2 where "s2 = snd (checkRateLimit ip t2 s1)"
  have c0: "countSeen s t1 < DAILY_GLOBAL_CAP"
    using countSeen_le [OF cnt, of t1] by (simp add: DAILY_GLOBAL_CAP_def)
  have v0: "surviving s ip t1 = []"
    unfolding surviving_stored_eq filter_empty_conv using old t1 by fastforce
  have l0: "length (surviving s ip t1) < RATE_LIMIT_MAX"
    by (simp add: v0 RATE_LIMIT_MAX_def)
  note a0 = allowed_step [OF c0 l0, folded s1_def]
  have st1: "stored s1 ip = [t1]"
    using stored_after_allowed [OF c0 l0] by (simp add: s1_def v0)
  have n1: "dailyCount s1 \<le> 98"
    using a0(3) countSeen_le [OF cnt, of t1] by simp
  have c1: "countSeen s1 t2 < DAILY_GLOBAL_CAP"
    using countSeen_le [OF n1, of t2] by (simp add: DAILY_GLOBAL_CAP_def)
  have l1: "length (surviving s1 ip t2) < RATE_LIMIT_MAX"
    using surviving_length_le [of s1 ip t2] by (simp add: st1 RATE_LIMIT_MAX_def)
  note a1 = allowed_step [OF c1 l1, folded s2_def]
  have st2: "length (stored s2 ip) \<le> 2"
    using stored_after_allowed [OF c1 l1] surviving_length_le [of s1 ip t2]
    by (simp add: s2_def st1)
  have n2: "dailyCount s2 \<le> 99"
    using a1(3) countSeen_le [OF n1, of t2] by simp
  have c2: "countSeen s2 t3 < DAILY_GLOBAL_CAP"
    using countSeen_le [OF n2, of t3] by (simp add: DAILY_GLOBAL_CAP_def)
  have l2: "length (surviving s2 ip t3) < RATE_LIMIT_MAX"
    using surviving_length_le [of s2 ip t3] st2 by (simp add: RATE_LIMIT_MAX_def)
  show ?thesis
    using c0 l0 c1 l1 c2 l2 by (simp add: s1_def s2_def)
qed

text \<open>
  Claim C2. A check that finds the counter below the daily cap and fewer than three
  (max-per-window) of the identifier's timestamps inside the window returns allowed, stores
  the surviving timestamps with the current one appended, and counts the request; so every
  check of a sequence of such checks is allowed. In particular, once the window has elapsed
  since all of an identifier's recorded requests, its next three requests are allowed again
  (the counter leaving room for them).
\<close>

theorem allowed_below_limits:
  "(countSeen s now < DAILY_GLOBAL_CAP \<and> length (surviving s ip now) < RATE_LIMIT_MAX \<longrightarrow>
      fst (checkRateLimit ip now s) = \<lparr>allowed = True, reason = None\<rparr> \<and>
      stored (snd (checkRateLimit ip now s)) ip = surviving s ip now @ [now] \<and>
      dailyCount (snd (checkRateLimit ip now s)) = countSeen s now + 1) \<and>
   (eachBelowLimits s es \<longrightarrow>
      fst (checks s es) = replicate (length es) \<lparr>allowed = True, reason = None\<rparr>) \<and>
   ((\<forall>t\<in>set (stored s ip). RATE_LIMIT_WINDOW \<le> T - t) \<and> dailyCount s \<le> 97 \<and>
    T \<le> t1 \<and> T \<le> t2 \<and> T \<le> t3 \<longrightarrow>
      fst (checks s [(ip, t1), (ip, t2), (ip, t3)]) =
        [\<lparr>allowed = True, reason = None\<rparr>, \<lparr>allowed = True, reason = None\<rparr>,
         \<lparr>allowed = True, reason = None\<rparr>])"
proof (intro conjI impI)
  assume h: "countSeen s now < DAILY_GLOBAL_CAP \<and> length (surviving s ip now) < RATE_LIMIT_MAX"
  then show "fst (checkRateLimit ip now s) = \<lparr>allowed = True, reason = None\<rparr>"
    by (simp add: allowed_step(1))
  from h show "stored (snd (checkRateLimit ip now s)) ip = surviving s ip now @ [now]"
    by (simp add: stored_after_allowed)
  from h show "dailyCount (snd (checkRateLimit ip now s)) = countSeen s now + 1"
    by (simp add: allowed_step(3))
next
  assume "eachBelowLimits s es"
  then show "fst (checks s es) = replicate (length es) \<lparr>allowed = True, reason = None\<rparr>"
    using each_below_all_allowed [of s es] by (simp add: allowedResult_def)
next
  assume "(\<forall>t\<in>set (stored s ip). RATE_LIMIT_WINDOW \<le> T - t) \<and> dailyCount s \<le> 97 \<and>
    T \<le> t1 \<and> T \<le> t2 \<and> T \<le> t3"
  then have "eachBelowLimits s [(ip, t1), (ip, t2), (ip, t3)]"
    by (intro quota_replenished [where T = T]) simp_all
  then show "fst (checks s [(ip, t1), (ip, t2), (ip, t3)]) =
        [\<lparr>allowed = True, reason = None\<rparr>, \<lparr>allowed = True, reason = None\<rparr>,
         \<lparr>allowed = True, reason = None\<rparr>]"
    using each_below_all_allowed [of s "[(ip, t1), (ip, t2), (ip, t3)]"]
    by (simp add: allowedResult_def numeral_3_eq_3)
qed

theorem allowed_below_limits_witness:
  "countSeen exState 3600000 < DAILY_GLOBAL_CAP \<and>
   length (surviving exState ''1.2.3.4'' 3600000) < RATE_LIMIT_MAX \<and>
   fst (checkRateLimit ''1.2.3.4'' 3600000 exState) = \<lparr>allowed = True, reason = None\<rparr> \<and>
   stored (snd (checkRateLimit ''1.2.3.4'' 3600000 exState)) ''1.2.3.4'' = [60000, 120000, 3600000] \<and>
   dailyCount (snd (checkRateLimit ''1.2.3.4'' 3600000 exState)) = 4 \<and>
   eachBelowLimits exState [(''1.2.3.4'', 3600000), (''5.6.7.8'', 3600001)] \<and>
   fst (checks exState [(''1.2.3.4'', 3600000), (''5.6.7.8'', 3600001)]) =
     [\<lparr>allowed = True, reason = None\<rparr>, \<lparr>allowed = True, reason = None\<rparr>] \<and>
   list_all (\<lambda>t. RATE_LIMIT_WINDOW \<le> 3720000 - t) (stored exState ''1.2.3.4'') \<and>
   dailyCount exState \<le> 97 \<and>
   fst (checks exState [(''1.2.3.4'', 3720000), (''1.2.3.4'', 3720001), (''1.2.3.4'', 3720002)]) =
     [\<lparr>allowed = True, reason = None\<rparr>, \<lparr>allowed = True, reason = None\<rparr>,
      \<lparr>allowed = True, reason = None\<rparr>]"
proof -
  have sv: "surviving exState ''1.2.3.4'' 3600000 = [60000, 120000]"
    by (simp add: surviving_def exState_def RATE_LIMIT_WINDOW_def)
  have cs: "countSeen exState 3600000 = 3"
    by (simp add: countSeen_def exState_def)
  have c: "countSeen exState 3600000 < DAILY_GLOBAL_CAP"
    and l: "length (surviving exState ''1.2.3.4'' 3600000) < RATE_LIMIT_MAX"
    by (simp_all add: sv cs DAILY_GLOBAL_CAP_def RATE_LIMIT_MAX_def)
  have st: "stored exState ''1.2.3.4'' = [0, 60000, 120000]" and dc: "dailyCount exState = 3"
    by (simp_all add: stored_def exState_def)
  have ex: "dailyReset exState = 86400000" "ipStore exState ''5.6.7.8'' = None"
    by (simp_all add: exState_def)
  define s1 where "s1 = snd (checkRateLimit ''1.2.3.4'' 3600000 exState)"
  have s1_count: "dailyCount s1 = 4" and s1_reset: "dailyReset s1 = 86400000"
    and s1_store: "ipStore s1 ''5.6.7.8'' = None"
    using allowed_step(2,3,4) [OF c l]
    by (simp_all add: s1_def cs afterReset_def ex)
  have e2: "countSeen s1 3600001 < DAILY_GLOBAL_CAP"
    "length (surviving s1 ''5.6.7.8'' 3600001) < RATE_LIMIT_MAX"
    by (simp_all add: countSeen_def surviving_def s1_count s1_reset s1_store
        DAILY_GLOBAL_CAP_def RATE_LIMIT_MAX_def)
  have each: "eachBelowLimits exState [(''1.2.3.4'', 3600000), (''5.6.7.8'', 3600001)]"
    using c l e2 by (simp add: s1_def)
  show ?thesis
    using allowed_below_limits [of exState 3600000 "''1.2.3.4''"
        "[(''1.2.3.4'', 3600000), (''5.6.7.8'', 3600001)]" 3720000 3720000 3720001 3720002]
    by (simp del: checks.simps eachBelowLimits.simps
        add: sv cs st dc each DAILY_GLOBAL_CAP_def RATE_LIMIT_MAX_def RATE_LIMIT_WINDOW_def)
qed

lemma beforeRollover_eq:
  "beforeRollover =
     \<lparr>ipStore = Map.empty(''1.2.3.4'' \<mapsto> [86399000, 86399500, 86400000]), dailyCount = 3,
      dailyReset = 86400000\<rparr>"
  by (simp add: beforeRollover_def coldStart_def checkRateLimit_def Let_def
      DAILY_GLOBAL_CAP_def RATE_LIMIT_MAX_def RATE_LIMIT_WINDOW_def)

lemma countSeen_store [simp]: "countSeen (s\<lparr>ipStore := m\<rparr>) now = countSeen s now"
  by (simp add: countSeen_def)

lemma afterReset_store: "afterReset (s\<lparr>ipStore := m\<rparr>) now = (afterReset s now)\<lparr>ipStore := m\<rparr>"
  by (simp add: afterReset_def)

lemma afterReset_id: "now \<le> dailyReset s \<Longrightarrow> afterReset s now = s"
  by (simp add: afterReset_def)

lemma countSeen_cap_no_reset:
  "DAILY_GLOBAL_CAP \<le> countSeen s now \<Longrightarrow> now \<le> dailyReset s"
  by (cases "now > dailyReset s") (simp_all add: countSeen_def DAILY_GLOBAL_CAP_def)

lemma denied_state:
  assumes "\<not> allowed (fst (checkRateLimit ip now s))"
  shows "snd (checkRateLimit ip now s) = afterReset s now"
proof (cases "countSeen s now < DAILY_GLOBAL_CAP")
  case False
  then show ?thesis by (simp add: check_global_denied)
next
  case cap: True
  show ?thesis
  proof (cases "length (surviving s ip now) < RATE_LIMIT_MAX")
    case True
    with cap assms show ?thesis by (simp add: check_allowed)
  next
    case False
    with cap show ?thesis by (simp add: check_ip_denied)
  qed
qed

lemma global_denial_ignores_store:
  assumes "DAILY_GLOBAL_CAP \<le> countSeen s now"
  shows "checkRateLimit ip now (s\<lparr>ipStore := m\<rparr>) =
     (\<lparr>allowed = False, reason = Some dailyLimitReason\<rparr>, s\<lparr>ipStore := m\<rparr>)"
proof -
  from assms have "now \<le> dailyReset s" by (rule countSeen_cap_no_reset)
  then have "afterReset (s\<lparr>ipStore := m\<rparr>) now = s\<lparr>ipStore := m\<rparr>"
    by (simp add: afterReset_id)
  with assms show ?thesis
    using check_global_denied [of "s\<lparr>ipStore := m\<rparr>" now ip] by simp
qed

text \<open>
  Claim C3 as stated fails: a call made just after the reset timestamp first rolls the
  daily counter over and is then denied by the identifier's window, so a denied call has
  changed the counter (here from 3 to 0).
\<close>

theorem denied_counter_changed_counterexample:
  "\<not> allowed (fst (checkRateLimit ''1.2.3.4'' 86400001 beforeRollover)) \<and>
   dailyCount beforeRollover = 3 \<and>
   dailyCount (snd (checkRateLimit ''1.2.3.4'' 86400001 beforeRollover)) = 0"
  by (simp add: beforeRollover_eq checkRateLimit_def Let_def
      DAILY_GLOBAL_CAP_def RATE_LIMIT_MAX_def RATE_LIMIT_WINDOW_def)

text \<open>
  Claim C3, amended. A denied call records nothing: no identifier's stored sequence is
  changed, and the counter and the reset timestamp are those left by the rollover of the
  first step (unchanged when the clock has not passed the reset timestamp, otherwise 0
  and now + 24 h). A denial by the daily cap leaves the whole state as it was and does
  not depend on the store: whatever the store holds, the same denial is returned and the
  store is handed back untouched.
\<close>

theorem denied_not_recorded:
  "(\<not> allowed (fst (checkRateLimit ip now s)) \<longrightarrow>
      ipStore (snd (checkRateLimit ip now s)) = ipStore s \<and>
      dailyCount (snd (checkRateLimit ip now s)) = (if now > dailyReset s then 0 else dailyCount s) \<and>
      dailyReset (snd (checkRateLimit ip now s)) =
        (if now > dailyReset s then now + 24 * 60 * 60 * 1000 else dailyReset s)) \<and>
   (\<not> allowed (fst (checkRateLimit ip now s)) \<and> now \<le> dailyReset s \<longrightarrow>
      snd (checkRateLimit ip now s) = s) \<and>
   (DAILY_GLOBAL_CAP \<le> countSeen s now \<longrightarrow>
      (\<forall>m. checkRateLimit ip now (s\<lparr>ipStore := m\<rparr>) =
         (\<lparr>allowed = False, reason = Some dailyLimitReason\<rparr>, s\<lparr>ipStore := m\<rparr>)))"
proof (intro conjI impI allI)
  assume d: "\<not> allowed (fst (checkRateLimit ip now s))"
  then have st: "snd (checkRateLimit ip now s) = afterReset s now" by (rule denied_state)
  show "ipStore (snd (checkRateLimit ip now s)) = ipStore s"
    by (simp add: st afterReset_simps)
  show "dailyCount (snd (checkRateLimit ip now s)) = (if now > dailyReset s then 0 else dailyCount s)"
    by (simp add: st afterReset_simps countSeen_def)
  show "dailyReset (snd (checkRateLimit ip now s)) =
        (if now > dailyReset s then now + 24 * 60 * 60 * 1000 else dailyReset s)"
    by (simp add: st afterReset_simps)
next
  assume "\<not> allowed (fst (checkRateLimit ip now s)) \<and> now \<le> dailyReset s"
  then show "snd (checkRateLimit ip now s) = s"
    by (simp add: denied_state afterReset_id)
next
  fix m
  assume "DAILY_GLOBAL_CAP \<le> countSeen s now"
  then show "checkRateLimit ip now (s\<lparr>ipStore := m\<rparr>) =
         (\<lparr>allowed = False, reason = Some dailyLimitReason\<rparr>, s\<lparr>ipStore := m\<rparr>)"
    by (rule global_denial_ignores_store)
qed

theorem denied_not_recorded_witness:
  "\<not> allowed (fst (checkRateLimit ''1.2.3.4'' 86400001 beforeRollover)) \<and>
   ipStore (snd (checkRateLimit ''1.2.3.4'' 86400001 beforeRollover)) = ipStore beforeRollover \<and>
   dailyCount (snd (checkRateLimit ''1.2.3.4'' 86400001 beforeRollover)) = 0 \<and>
   dailyReset (snd (checkRateLimit ''1.2.3.4'' 86400001 beforeRollover)) = 172800001 \<and>
   \<not> allowed (fst (checkRateLimit ''1.2.3.4'' 5000 exState)) \<and> 5000 \<le> dailyReset exState \<and>
   snd (checkRateLimit ''1.2.3.4'' 5000 exState) = exState \<and>
   DAILY_GLOBAL_CAP \<le> countSeen cappedState 5000 \<and>
   checkRateLimit ''9.9.9.9'' 5000 (cappedState\<lparr>ipStore := Map.empty\<rparr>) =
     (\<lparr>allowed = False, reason = Some dailyLimitReason\<rparr>, cappedState\<lparr>ipStore := Map.empty\<rparr>)"
proof -
  have d1: "\<not> allowed (fst (checkRateLimit ''1.2.3.4'' 86400001 beforeRollover))"
    by (simp add: beforeRollover_eq checkRateLimit_def Let_def
      DAILY_GLOBAL_CAP_def RATE_LIMIT_MAX_def RATE_LIMIT_WINDOW_def)
  have r1: "dailyReset beforeRollover < 86400001"
    by (simp add: beforeRollover_eq)
  have d2: "\<not> allowed (fst (checkRateLimit ''1.2.3.4'' 5000 exState))"
    by (simp add: exState_def checkRateLimit_def Let_def
      DAILY_GLOBAL_CAP_def RATE_LIMIT_MAX_def RATE_LIMIT_WINDOW_def)
  have r2: "5000 \<le> dailyReset exState"
    by (simp add: exState_def)
  have c3: "DAILY_GLOBAL_CAP \<le> countSeen cappedState 5000"
    by (simp add: cappedState_def countSeen_def DAILY_GLOBAL_CAP_def)
  from denied_not_recorded [of "''1.2.3.4''" 86400001 beforeRollover] d1 r1
  have p1: "ipStore (snd (checkRateLimit ''1.2.3.4'' 86400001 beforeRollover)) = ipStore beforeRollover"
    "dailyCount (snd (checkRateLimit ''1.2.3.4'' 86400001 beforeRollover)) = 0"
    "dailyReset (snd (checkRateLimit ''1.2.3.4'' 86400001 beforeRollover)) = 172800001"
    by simp_all
  from denied_not_recorded [of "''1.2.3.4''" 5000 exState] d2 r2
  have p2: "snd (checkRateLimit ''1.2.3.4'' 5000 exState) = exState"
    by simp
  from denied_not_recorded [of "''9.9.9.9''" 5000 cappedState] c3
  have p3: "checkRateLimit ''9.9.9.9'' 5000 (cappedState\<lparr>ipStore := Map.empty\<rparr>) =
     (\<lparr>allowed = False, reason = Some dailyLimitReason\<rparr>, cappedState\<lparr>ipStore := Map.empty\<rparr>)"
    by blast
  from d1 p1 d2 r2 p2 c3 p3 show ?thesis by simp
qed

lemma capped_call:
  assumes "DAILY_GLOBAL_CAP \<le> dailyCount s" and "now \<le> dailyReset s"
  shows "checkRateLimit ip now s = (\<lparr>allowed = False, reason = Some dailyLimitReason\<rparr>, s)"
proof -
  from assms have "DAILY_GLOBAL_CAP \<le> countSeen s now"
    by (simp add: countSeen_def)
  then show ?thesis
    using assms(2) by (simp add: check_global_denied afterReset_id)
qed

lemma capped_calls:
  assumes "DAILY_GLOBAL_CAP \<le> dailyCount s" and "\<forall>e\<in>set es. snd e \<le> dailyReset s"
  shows "checks s es = (replicate (length es) \<lparr>allowed = False, reason = Some dailyLimitReason\<rparr>, s)"
  using assms
proof (induction es)
  case Nil
  then show ?case by simp
next
  case (Cons e es)
  obtain ip now where e: "e = (ip, now)" by (cases e)
  from Cons.prems have "checkRateLimit ip now s =
      (\<lparr>allowed = False, reason = Some dailyLimitReason\<rparr>, s)"
    by (intro capped_call) (simp_all add: e)
  moreover from Cons have "checks s es =
      (replicate (length es) \<lparr>allowed = False, reason = Some dailyLimitReason\<rparr>, s)"
    by simp
  ultimately show ?case by (simp add: e)
qed

lemma rollover_call:
  assumes "dailyReset s < now"
  shows "checkRateLimit ip now s =
      checkRateLimit ip now (s\<lparr>dailyCount := 0, dailyReset := now + 24 * 60 * 60 * 1000\<rparr>)"
  using assms by (simp add: checkRateLimit_def Let_def)

lemma rollover_outcome:
  assumes "dailyReset s < now"
  shows "allowed (fst (checkRateLimit ip now s)) = (length (surviving s ip now) < RATE_LIMIT_MAX)"
    and "dailyReset (snd (checkRateLimit ip now s)) = now + 24 * 60 * 60 * 1000"
    and "dailyCount (snd (checkRateLimit ip now s)) =
      (if length (surviving s ip now) < RATE_LIMIT_MAX then 1 else 0)"
proof -
  from assms have c: "countSeen s now < DAILY_GLOBAL_CAP" and z: "countSeen s now = 0"
    by (simp_all add: countSeen_def DAILY_GLOBAL_CAP_def)
  show "allowed (fst (checkRateLimit ip now s)) = (length (surviving s ip now) < RATE_LIMIT_MAX)"
    using c by (cases "length (surviving s ip now) < RATE_LIMIT_MAX")
      (simp_all add: check_allowed check_ip_denied)
  show "dailyReset (snd (checkRateLimit ip now s)) = now + 24 * 60 * 60 * 1000"
    using c assms by (cases "length (surviving s ip now) < RATE_LIMIT_MAX")
      (simp_all add: check_allowed check_ip_denied afterReset_simps)
  show "dailyCount (snd (checkRateLimit ip now s)) =
      (if length (surviving s ip now) < RATE_LIMIT_MAX then 1 else 0)"
    using c z by (cases "length (surviving s ip now) < RATE_LIMIT_MAX")
      (simp_all add: check_allowed check_ip_denied afterReset_simps)
qed

text \<open>
  Claim C4. With the daily counter at the cap (100) or above, a check whose clock reading
  does not exceed the stored reset timestamp is denied with the fixed ``try again
  tomorrow'' reason for every identifier, whatever its window, and leaves the state as it
  was; so this holds for every check of a sequence of such checks. A check whose clock
  reading exceeds the reset timestamp behaves as on a state with the counter at zero and
  the reset timestamp at now + 24 h: afterwards the reset timestamp is now + 24 h, the
  identifier is allowed exactly when its window has room, and the counter counts that one
  request.
\<close>

theorem daily_cap_until_reset:
  "(DAILY_GLOBAL_CAP \<le> dailyCount s \<and> now \<le> dailyReset s \<longrightarrow>
      checkRateLimit ip now s =
        (\<lparr>allowed = False, reason = Some ''Daily limit reached. Please try again tomorrow.''\<rparr>, s)) \<and>
   (DAILY_GLOBAL_CAP \<le> dailyCount s \<and> (\<forall>e\<in>set es. snd e \<le> dailyReset s) \<longrightarrow>
      checks s es =
        (replicate (length es)
           \<lparr>allowed = False, reason = Some ''Daily limit reached. Please try again tomorrow.''\<rparr>, s)) \<and>
   (dailyReset s < now \<longrightarrow>
      checkRateLimit ip now s =
        checkRateLimit ip now (s\<lparr>dailyCount := 0, dailyReset := now + 24 * 60 * 60 * 1000\<rparr>) \<and>
      dailyReset (snd (checkRateLimit ip now s)) = now + 24 * 60 * 60 * 1000 \<and>
      allowed (fst (checkRateLimit ip now s)) = (length (surviving s ip now) < RATE_LIMIT_MAX) \<and>
      dailyCount (snd (checkRateLimit ip now s)) =
        (if allowed (fst (checkRateLimit ip now s)) then 1 else 0))"
proof (intro conjI impI)
  assume "DAILY_GLOBAL_CAP \<le> dailyCount s \<and> now \<le> dailyReset s"
  then show "checkRateLimit ip now s =
        (\<lparr>allowed = False, reason = Some ''Daily limit reached. Please try again tomorrow.''\<rparr>, s)"
    using capped_call [of s now ip] by (simp add: dailyLimitReason_def)
next
  assume "DAILY_GLOBAL_CAP \<le> dailyCount s \<and> (\<forall>e\<in>set es. snd e \<le> dailyReset s)"
  then show "checks s es =
        (replicate (length es)
           \<lparr>allowed = False, reason = Some ''Daily limit reached. Please try again tomorrow.''\<rparr>, s)"
    using capped_calls [of s es] by (simp add: dailyLimitReason_def)
next
  assume r: "dailyReset s < now"
  then show "checkRateLimit ip now s =
        checkRateLimit ip now (s\<lparr>dailyCount := 0, dailyReset := now + 24 * 60 * 60 * 1000\<rparr>)"
    by (rule rollover_call)
  from r show "dailyReset (snd (checkRateLimit ip now s)) = now + 24 * 60 * 60 * 1000"
    by (rule rollover_outcome(2))
  from r show "allowed (fst (checkRateLimit ip now s)) = (length (surviving s ip now) < RATE_LIMIT_MAX)"
    by (rule rollover_outcome(1))
  from r show "dailyCount (snd (checkRateLimit ip now s)) =
        (if allowed (fst (checkRateLimit ip now s)) then 1 else 0)"
    by (simp add: rollover_outcome)
qed

theorem daily_cap_until_reset_witness:
  "DAILY_GLOBAL_CAP \<le> dailyCount cappedState \<and> 86400000 \<le> dailyReset cappedState \<and>
   checkRateLimit ''9.9.9.9'' 86400000 cappedState =
     (\<lparr>allowed = False, reason = Some ''Daily limit reached. Please try again tomorrow.''\<rparr>,
      cappedState) \<and>
   list_all (\<lambda>e. snd e \<le> dailyReset cappedState) [(''1.2.3.4'', 30), (''9.9.9.9'', 86400000)] \<and>
   checks cappedState [(''1.2.3.4'', 30), (''9.9.9.9'', 86400000)] =
     ([\<lparr>allowed = False, reason = Some ''Daily limit reached. Please try again tomorrow.''\<rparr>,
       \<lparr>allowed = False, reason = Some ''Daily limit reached. Please try again tomorrow.''\<rparr>],
      cappedState) \<and>
   dailyReset cappedState < 86400001 \<and>
   allowed (fst (checkRateLimit ''1.2.3.4'' 86400001 cappedState)) \<and>
   dailyCount (snd (checkRateLimit ''1.2.3.4'' 86400001 cappedState)) = 1 \<and>
   dailyReset (snd (checkRateLimit ''1.2.3.4'' 86400001 cappedState)) = 172800001"
proof -
  have f: "DAILY_GLOBAL_CAP \<le> dailyCount cappedState" "dailyReset cappedState = 86400000"
    by (simp_all add: cappedState_def DAILY_GLOBAL_CAP_def)
  have sv: "length (surviving cappedState ''1.2.3.4'' 86400001) < RATE_LIMIT_MAX"
    by (simp add: surviving_def cappedState_def RATE_LIMIT_MAX_def)
  note T = daily_cap_until_reset [of cappedState _ _ "[(''1.2.3.4'', 30), (''9.9.9.9'', 86400000)]"]
  from T [of 86400000 "''9.9.9.9''"] f
  have p1: "checkRateLimit ''9.9.9.9'' 86400000 cappedState =
     (\<lparr>allowed = False, reason = Some ''Daily limit reached. Please try again tomorrow.''\<rparr>,
      cappedState)"
    and p2: "checks cappedState [(''1.2.3.4'', 30), (''9.9.9.9'', 86400000)] =
     ([\<lparr>allowed = False, reason = Some ''Daily limit reached. Please try again tomorrow.''\<rparr>,
       \<lparr>allowed = False, reason = Some ''Daily limit reached. Please try again tomorrow.''\<rparr>],
      cappedState)"
    by (simp_all del: checks.simps)
  have lt: "dailyReset cappedState < 86400001"
    by (simp add: f)
  from T [of 86400001 "''1.2.3.4''"] lt
  have q: "dailyReset (snd (checkRateLimit ''1.2.3.4'' 86400001 cappedState)) =
      86400001 + 24 * 60 * 60 * 1000 \<and>
    allowed (fst (checkRateLimit ''1.2.3.4'' 86400001 cappedState)) =
      (length (surviving cappedState ''1.2.3.4'' 86400001) < RATE_LIMIT_MAX) \<and>
    dailyCount (snd (checkRateLimit ''1.2.3.4'' 86400001 cappedState)) =
      (if allowed (fst (checkRateLimit ''1.2.3.4'' 86400001 cappedState)) then 1 else 0)"
    by blast
  with sv
  have p3: "allowed (fst (checkRateLimit ''1.2.3.4'' 86400001 cappedState))"
    "dailyCount (snd (checkRateLimit ''1.2.3.4'' 86400001 cappedState)) = 1"
    "dailyReset (snd (checkRateLimit ''1.2.3.4'' 86400001 cappedState)) = 172800001"
    by simp_all
  from f lt p1 p2 p3 show ?thesis by (simp del: checks.simps)
qed

lemma windowBounded_step:
  assumes "windowBounded s"
  shows "windowBounded (snd (checkRateLimit ip now s))"
proof -
  have "windowBounded (afterReset s now)"
    using assms by (simp add: windowBounded_def afterReset_simps)
  moreover have "windowBounded ((afterReset s now)\<lparr>ipStore := (ipStore s)(ip \<mapsto> surviving s ip now @ [now]),
        dailyCount := countSeen s now + 1\<rparr>)"
    if "length (surviving s ip now) < RATE_LIMIT_MAX"
    using assms that by (auto simp: windowBounded_def)
  ultimately show ?thesis
  proof (cases "countSeen s now < DAILY_GLOBAL_CAP \<and> length (surviving s ip now) < RATE_LIMIT_MAX")
    case True
    with \<open>length (surviving s ip now) < RATE_LIMIT_MAX \<Longrightarrow> windowBounded _\<close> show ?thesis
      by (simp add: check_allowed)
  next
    case False
    then have "\<not> allowed (fst (checkRateLimit ip now s))"
      by (cases "countSeen s now < DAILY_GLOBAL_CAP")
        (auto simp: check_global_denied check_ip_denied)
    with \<open>windowBounded (afterReset s now)\<close> show ?thesis
      by (simp add: denied_state)
  qed
qed

lemma underCap_step:
  assumes "underCap s"
  shows "underCap (snd (checkRateLimit ip now s))"
proof -
  from assms have le: "countSeen s now \<le> DAILY_GLOBAL_CAP"
    by (simp add: underCap_def countSeen_def DAILY_GLOBAL_CAP_def)
  from snd_check_cases [of ip now s] show ?thesis
  proof
    assume "snd (checkRateLimit ip now s) = afterReset s now"
    with le show ?thesis by (simp add: underCap_def afterReset_simps)
  next
    assume st: "snd (checkRateLimit ip now s) =
      (afterReset s now)\<lparr>ipStore := (ipStore s)(ip \<mapsto> surviving s ip now @ [now]),
        dailyCount := countSeen s now + 1\<rparr>"
    show ?thesis
    proof (cases "countSeen s now < DAILY_GLOBAL_CAP")
      case True
      with st show ?thesis by (simp add: underCap_def)
    next
      case False
      then have "snd (checkRateLimit ip now s) = afterReset s now"
        by (simp add: check_global_denied)
      with le show ?thesis by (simp add: underCap_def afterReset_simps)
    qed
  qed
qed

lemma written_in_window:
  assumes new: "ipStore (snd (checkRateLimit ip now s)) ip' = Some ts" and diff: "ipStore s ip' \<noteq> Some ts"
  shows "ip' = ip \<and> ts = surviving s ip now @ [now] \<and> (\<forall>t\<in>set ts. now - t < RATE_LIMIT_WINDOW)"
proof -
  from snd_check_cases [of ip now s] new diff
  have st: "ipStore (snd (checkRateLimit ip now s)) = (ipStore s)(ip \<mapsto> surviving s ip now @ [now])"
    by (auto simp: afterReset_simps)
  with new diff have "ip' = ip" and "ts = surviving s ip now @ [now]"
    by (auto split: if_splits)
  moreover have "now - now < RATE_LIMIT_WINDOW"
    by (simp add: RATE_LIMIT_WINDOW_def)
  then have "\<forall>t\<in>set (surviving s ip now @ [now]). now - t < RATE_LIMIT_WINDOW"
    by (auto dest: surviving_in_window)
  ultimately show ?thesis by simp
qed

lemma invariants_checks:
  assumes "windowBounded s" and "underCap s"
  shows "windowBounded (snd (checks s es)) \<and> underCap (snd (checks s es))"
  using assms
proof (induction es arbitrary: s)
  case Nil
  then show ?case by simp
next
  case (Cons e es)
  obtain ip now where e: "e = (ip, now)" by (cases e)
  have "windowBounded (snd (checkRateLimit ip now s))" "underCap (snd (checkRateLimit ip now s))"
    using Cons.prems by (simp_all add: windowBounded_step underCap_step)
  then have "windowBounded (snd (checks (snd (checkRateLimit ip now s)) es))
      \<and> underCap (snd (checks (snd (checkRateLimit ip now s)) es))"
    by (rule Cons.IH)
  then show ?case by (simp add: e split_beta)
qed

text \<open>
  Claim C10. Each call keeps every stored sequence at length at most three
  (max-per-window) and the daily counter at most 100; a sequence that the call writes
  belongs to the identifier of the call and holds only timestamps inside the window at
  the time of the call. Hence both bounds hold after any sequence of calls from a state
  that has them, and the state at cold start has them.
\<close>

theorem invariants_preserved:
  "(windowBounded s \<longrightarrow> windowBounded (snd (checkRateLimit ip now s))) \<and>
   (underCap s \<longrightarrow> underCap (snd (checkRateLimit ip now s))) \<and>
   (\<forall>ip' ts. ipStore (snd (checkRateLimit ip now s)) ip' = Some ts \<and> ipStore s ip' \<noteq> Some ts \<longrightarrow>
      ip' = ip \<and> (\<forall>t\<in>set ts. now - t < RATE_LIMIT_WINDOW)) \<and>
   (windowBounded s \<and> underCap s \<longrightarrow>
      windowBounded (snd (checks s es)) \<and> underCap (snd (checks s es))) \<and>
   windowBounded (coldStart t0) \<and> underCap (coldStart t0)"
proof (intro conjI impI allI)
  show "windowBounded (coldStart t0)" by (simp add: windowBounded_def coldStart_def)
  show "underCap (coldStart t0)" by (simp add: underCap_def coldStart_def DAILY_GLOBAL_CAP_def)
next
  assume "windowBounded s"
  then show "windowBounded (snd (checkRateLimit ip now s))" by (rule windowBounded_step)
next
  assume "underCap s"
  then show "underCap (snd (checkRateLimit ip now s))" by (rule underCap_step)
next
  fix ip' ts
  assume h: "ipStore (snd (checkRateLimit ip now s)) ip' = Some ts \<and> ipStore s ip' \<noteq> Some ts"
  then show "ip' = ip" using written_in_window [of ip now s ip' ts] by simp
  from h show "\<forall>t\<in>set ts. now - t < RATE_LIMIT_WINDOW"
    using written_in_window [of ip now s ip' ts] by simp
next
  assume "windowBounded s \<and> underCap s"
  then show "windowBounded (snd (checks s es))" "underCap (snd (checks s es))"
    using invariants_checks [of s es] by simp_all
qed

theorem invariants_preserved_witness:
  "windowBounded exState \<and> underCap exState \<and>
   windowBounded (snd (checkRateLimit ''1.2.3.4'' 3600000 exState)) \<and>
   underCap (snd (checkRateLimit ''1.2.3.4'' 3600000 exState)) \<and>
   ipStore (snd (checkRateLimit ''1.2.3.4'' 3600000 exState)) ''1.2.3.4'' = Some [60000, 120000, 3600000] \<and>
   ipStore exState ''1.2.3.4'' \<noteq> Some [60000, 120000, 3600000] \<and>
   list_all (\<lambda>t. 3600000 - t < RATE_LIMIT_WINDOW) [60000, 120000, 3600000] \<and>
   windowBounded (snd (checks exState [(''1.2.3.4'', 3600000), (''5.6.7.8'', 3600001)])) \<and>
   underCap (snd (checks exState [(''1.2.3.4'', 3600000), (''5.6.7.8'', 3600001)]))"
proof -
  have wb: "windowBounded exState"
    by (simp add: windowBounded_def exState_def RATE_LIMIT_MAX_def)
  have uc: "underCap exState"
    by (simp add: underCap_def exState_def DAILY_GLOBAL_CAP_def)
  have st: "ipStore (snd (checkRateLimit ''1.2.3.4'' 3600000 exState)) ''1.2.3.4'' =
      Some [60000, 120000, 3600000]"
    by (simp add: exState_def checkRateLimit_def Let_def
        DAILY_GLOBAL_CAP_def RATE_LIMIT_MAX_def RATE_LIMIT_WINDOW_def)
  have old: "ipStore exState ''1.2.3.4'' \<noteq> Some [60000, 120000, 3600000]"
    by (simp add: exState_def)
  note T = invariants_preserved [of exState "''1.2.3.4''" 3600000
      "[(''1.2.3.4'', 3600000), (''5.6.7.8'', 3600001)]" 0]
  from T wb uc have p1: "windowBounded (snd (checkRateLimit ''1.2.3.4'' 3600000 exState))"
    "underCap (snd (checkRateLimit ''1.2.3.4'' 3600000 exState))"
    "windowBounded (snd (checks exState [(''1.2.3.4'', 3600000), (''5.6.7.8'', 3600001)]))"
    "underCap (snd (checks exState [(''1.2.3.4'', 3600000), (''5.6.7.8'', 3600001)]))"
    by blast+
  from T st old have "\<forall>t\<in>set [60000, 120000, 3600000]. 3600000 - t < RATE_LIMIT_WINDOW"
    by blast
  then have p2: "list_all (\<lambda>t. 3600000 - t < RATE_LIMIT_WINDOW) [60000, 120000, 3600000]"
    by (simp add: list_all_iff)
  from wb uc p1 st old p2 show ?thesis by blast
qed

section \<open>Properties of the handlers\<close>

lemma js_split_nonempty: "js_split sep s \<noteq> []"
  by (induction s) (simp_all split: list.splits)

lemma js_split_first: "js_split sep s ! 0 = takeWhile (\<lambda>c. c \<noteq> sep) s"
proof (induction s)
  case Nil
  then show ?case by simp
next
  case (Cons c cs)
  obtain w ws where "js_split sep cs = w # ws"
    using js_split_nonempty [of sep cs] by (cases "js_split sep cs") simp_all
  with Cons show ?case by simp
qed

lemma js_trim_decompose:
  "\<exists>l r. s = l @ js_trim s @ r \<and> (\<forall>c\<in>set l. is_ws c) \<and> (\<forall>c\<in>set r. is_ws c)"
proof -
  let ?d = "dropWhile is_ws s"
  have "s = takeWhile is_ws s @ ?d" by simp
  moreover have "?d = js_trim s @ rev (takeWhile is_ws (rev ?d))"
    unfolding js_trim_def by (metis rev_append rev_rev_ident takeWhile_dropWhile_id)
  moreover have "\<forall>c\<in>set (takeWhile is_ws s). is_ws c"
    by (auto dest: set_takeWhileD)
  moreover have "\<forall>c\<in>set (rev (takeWhile is_ws (rev ?d))). is_ws c"
    by (auto dest: set_takeWhileD)
  ultimately show ?thesis by metis
qed

lemma js_trim_ends:
  assumes "js_trim s \<noteq> []"
  shows "\<not> is_ws (hd (js_trim s)) \<and> \<not> is_ws (last (js_trim s))"
proof -
  let ?d = "dropWhile is_ws s"
  let ?e = "dropWhile is_ws (rev ?d)"
  from assms have e: "?e \<noteq> []" by (simp add: js_trim_def)
  then have l: "\<not> is_ws (hd ?e)" by (rule hd_dropWhile)
  from e have "rev ?d \<noteq> []" by (metis dropWhile.simps(1))
  then have d: "?d \<noteq> []" by simp
  then have h: "\<not> is_ws (hd ?d)" by (rule hd_dropWhile)
  have "last (js_trim s) = hd ?e"
    using e by (simp add: js_trim_def last_rev)
  moreover have "hd (js_trim s) = hd ?d"
  proof -
    have "rev ?d = takeWhile is_ws (rev ?d) @ ?e" by simp
    then have "?d = rev ?e @ rev (takeWhile is_ws (rev ?d))"
      by (metis rev_append rev_rev_ident)
    then have "hd ?d = hd (rev ?e)" using e by (metis hd_append2 rev_is_Nil_conv)
    then show ?thesis by (simp add: js_trim_def)
  qed
  ultimately show ?thesis using l h by simp
qed

text \<open>
  Claim C7. The source identifier is the first comma-separated value of the forwarded-for
  header, trimmed, when the header is present and that value is not empty; otherwise the
  real-IP header when present and not empty; otherwise the peer address of the socket when
  there is one and it is not empty; otherwise the literal \<open>unknown\<close>.
  (\<open>js_trim_decompose\<close> and \<open>js_trim_ends\<close> say what trimming removes.)
\<close>

theorem getIP_precedence:
  "getIP req =
     (let fwd = (case headers req ''x-forwarded-for'' of None \<Rightarrow> []
                 | Some h \<Rightarrow> js_trim (takeWhile (\<lambda>c. c \<noteq> CHR '','') h));
          realIp = (case headers req ''x-real-ip'' of None \<Rightarrow> [] | Some h \<Rightarrow> h);
          peer = (case socket req of None \<Rightarrow> []
                  | Some so \<Rightarrow> (case remoteAddress so of None \<Rightarrow> [] | Some a \<Rightarrow> a))
      in if fwd \<noteq> [] then fwd
         else if realIp \<noteq> [] then realIp
         else if peer \<noteq> [] then peer
         else ''unknown'')"
  by (simp add: getIP_def strOr_def js_split_first Let_def split: option.splits)

theorem getIP_precedence_witness:
  "getIP proxiedRequest = ''203.0.113.7'' \<and>
   getIP (proxiedRequest\<lparr>headers := [''x-forwarded-for'' \<mapsto> '' ,10.0.0.1'', ''x-real-ip'' \<mapsto> ''10.0.0.1'']\<rparr>)
     = ''10.0.0.1'' \<and>
   getIP (proxiedRequest\<lparr>headers := Map.empty\<rparr>) = ''10.0.0.2'' \<and>
   getIP (proxiedRequest\<lparr>headers := Map.empty, socket := Some \<lparr>remoteAddress = None\<rparr>\<rparr>) = ''unknown'' \<and>
   getIP (proxiedRequest\<lparr>headers := Map.empty, socket := None\<rparr>) = ''unknown''"
proof -
  have "getIP proxiedRequest = ''203.0.113.7''"
    unfolding getIP_precedence [of proxiedRequest]
    by (simp add: proxiedRequest_def js_trim_def is_ws_def)
  moreover have "getIP (proxiedRequest\<lparr>headers := [''x-forwarded-for'' \<mapsto> '' ,10.0.0.1'', ''x-real-ip'' \<mapsto> ''10.0.0.1'']\<rparr>)
     = ''10.0.0.1''"
    unfolding getIP_precedence
    by (simp add: proxiedRequest_def js_trim_def is_ws_def)
  moreover have "getIP (proxiedRequest\<lparr>headers := Map.empty\<rparr>) = ''10.0.0.2''"
    unfolding getIP_precedence by (simp add: proxiedRequest_def)
  moreover have "getIP (proxiedRequest\<lparr>headers := Map.empty, socket := Some \<lparr>remoteAddress = None\<rparr>\<rparr>) = ''unknown''"
    unfolding getIP_precedence by (simp add: proxiedRequest_def)
  moreover have "getIP (proxiedRequest\<lparr>headers := Map.empty, socket := None\<rparr>) = ''unknown''"
    unfolding getIP_precedence by (simp add: proxiedRequest_def)
  ultimately show ?thesis by blast
qed

lemma get_prop_or_empty: "get_prop (js_or b (JObj [])) k = get_prop b k"
  by (cases b) (simp_all add: js_or_def)

lemma source_test_invalid:
  "(\<not> truthy p \<or> \<not> is_string p \<or> length (the_string p) < 20 \<or> 12000 < length (the_string p))
     = promptInvalid p"
  by (cases p) (auto simp: promptInvalid_def)

lemma allowed_iff:
  "allowed (fst (checkRateLimit ip now s)) =
     (countSeen s now < DAILY_GLOBAL_CAP \<and> length (surviving s ip now) < RATE_LIMIT_MAX)"
proof (cases "countSeen s now < DAILY_GLOBAL_CAP")
  case False
  then show ?thesis by (simp add: check_global_denied)
next
  case cap: True
  then show ?thesis
    by (cases "length (surviving s ip now) < RATE_LIMIT_MAX")
      (simp_all add: check_allowed check_ip_denied)
qed

text \<open>What the handler does once the request is a POST that the admission check allowed.\<close>

lemma admitted_invalid:
  assumes "method_name req = ''POST''" and "allowed (fst (checkRateLimit (getIP req) now s))"
    and "promptInvalid (promptField req)"
  shows "generate_handler envKey anthropic now req s =
     (Inr (jsonWith 400 [(''error'',
        JStr (if 12000 < length (the_string (promptField req)) then ''Prompt too large''
              else ''Invalid request''))]),
      snd (checkRateLimit (getIP req) now s))"
proof -
  let ?p = "promptField req"
  from assms(3) consider
      (small) "\<not> truthy ?p \<or> \<not> is_string ?p \<or> length (the_string ?p) < 20"
    | (large) "\<not> (\<not> truthy ?p \<or> \<not> is_string ?p \<or> length (the_string ?p) < 20)"
        "12000 < length (the_string ?p)"
    unfolding source_test_invalid [symmetric] by blast
  then show ?thesis
  proof cases
    case small
    then have "\<not> 12000 < length (the_string ?p)"
      by (cases ?p) auto
    with small assms(1,2) show ?thesis
      unfolding generate_handler_def get_prop_or_empty promptField_def [symmetric]
      by (simp add: split_beta Let_def)
  next
    case large
    with assms(1,2) show ?thesis
      unfolding generate_handler_def get_prop_or_empty promptField_def [symmetric]
      by (simp add: split_beta Let_def)
  qed
qed

lemma admitted_valid:
  assumes "method_name req = ''POST''" and "allowed (fst (checkRateLimit (getIP req) now s))"
    and "\<not> promptInvalid (promptField req)"
  shows "statusOf (fst (generate_handler envKey anthropic now req s)) \<noteq> Some 400"
proof -
  let ?p = "promptField req"
  from assms(3) have v: "truthy ?p" "is_string ?p" "\<not> length (the_string ?p) < 20"
    "\<not> 12000 < length (the_string ?p)"
    unfolding source_test_invalid [symmetric] by simp_all
  show ?thesis
    using assms(1,2) v
    unfolding generate_handler_def get_prop_or_empty promptField_def [symmetric]
    by (simp add: split_beta Let_def statusOf_def jsonWith_def
        split: option.splits upstream.splits)
qed

text \<open>
  Claim C5. A POST request that passes the admission check and whose prompt then fails
  validation is answered with 400, yet it has been recorded: the state the handler leaves
  is the one the admission check left, with the current timestamp appended to the
  identifier's window and the daily counter incremented.
\<close>

theorem invalid_prompt_still_recorded:
  "method_name req = ''POST'' \<and> allowed (fst (checkRateLimit (getIP req) now s)) \<and>
   promptInvalid (promptField req) \<longrightarrow>
     statusOf (fst (generate_handler envKey anthropic now req s)) = Some 400 \<and>
     snd (generate_handler envKey anthropic now req s) = snd (checkRateLimit (getIP req) now s) \<and>
     stored (snd (generate_handler envKey anthropic now req s)) (getIP req) =
       surviving s (getIP req) now @ [now] \<and>
     dailyCount (snd (generate_handler envKey anthropic now req s)) = countSeen s now + 1"
proof (intro impI)
  assume h: "method_name req = ''POST'' \<and> allowed (fst (checkRateLimit (getIP req) now s)) \<and>
   promptInvalid (promptField req)"
  then have eq: "generate_handler envKey anthropic now req s =
     (Inr (jsonWith 400 [(''error'',
        JStr (if 12000 < length (the_string (promptField req)) then ''Prompt too large''
              else ''Invalid request''))]),
      snd (checkRateLimit (getIP req) now s))"
    by (intro admitted_invalid) simp_all
  from h have c: "countSeen s now < DAILY_GLOBAL_CAP"
    and l: "length (surviving s (getIP req) now) < RATE_LIMIT_MAX"
    by (simp_all add: allowed_iff)
  show "statusOf (fst (generate_handler envKey anthropic now req s)) = Some 400 \<and>
     snd (generate_handler envKey anthropic now req s) = snd (checkRateLimit (getIP req) now s) \<and>
     stored (snd (generate_handler envKey anthropic now req s)) (getIP req) =
       surviving s (getIP req) now @ [now] \<and>
     dailyCount (snd (generate_handler envKey anthropic now req s)) = countSeen s now + 1"
    unfolding eq
    by (simp add: statusOf_def jsonWith_def stored_after_allowed [OF c l] allowed_step(3) [OF c l])
qed

theorem invalid_prompt_still_recorded_witness:
  "method_name proxiedRequest = ''POST'' \<and>
   allowed (fst (checkRateLimit (getIP proxiedRequest) 1000 (coldStart 0))) \<and>
   promptInvalid (promptField proxiedRequest) \<and>
   statusOf (fst (generate_handler None (\<lambda>k p. UpstreamStream []) 1000 proxiedRequest (coldStart 0)))
     = Some 400 \<and>
   stored (snd (generate_handler None (\<lambda>k p. UpstreamStream []) 1000 proxiedRequest (coldStart 0)))
     (getIP proxiedRequest) = [1000] \<and>
   dailyCount (snd (generate_handler None (\<lambda>k p. UpstreamStream []) 1000 proxiedRequest (coldStart 0)))
     = 1"
proof -
  have m: "method_name proxiedRequest = ''POST''"
    by (simp add: proxiedRequest_def)
  have sv: "surviving (coldStart 0) (getIP proxiedRequest) 1000 = []"
    and cs: "countSeen (coldStart 0) 1000 = 0"
    by (simp_all add: surviving_def countSeen_def coldStart_def)
  have a: "allowed (fst (checkRateLimit (getIP proxiedRequest) 1000 (coldStart 0)))"
    by (simp add: allowed_iff sv cs DAILY_GLOBAL_CAP_def RATE_LIMIT_MAX_def)
  have p: "promptInvalid (promptField proxiedRequest)"
    by (simp add: promptInvalid_def promptField_def proxiedRequest_def)
  from invalid_prompt_still_recorded [of proxiedRequest 1000 "coldStart 0" None "\<lambda>k p. UpstreamStream []"]
    m a p
  have q1: "statusOf (fst (generate_handler None (\<lambda>k p. UpstreamStream []) 1000 proxiedRequest
      (coldStart 0))) = Some 400"
    and q3: "stored (snd (generate_handler None (\<lambda>k p. UpstreamStream []) 1000 proxiedRequest
      (coldStart 0))) (getIP proxiedRequest) = surviving (coldStart 0) (getIP proxiedRequest) 1000 @ [1000]"
    and q4: "dailyCount (snd (generate_handler None (\<lambda>k p. UpstreamStream []) 1000 proxiedRequest
      (coldStart 0))) = countSeen (coldStart 0) 1000 + 1"
    by blast+
  from m a p q1 q3 q4 show ?thesis by (simp add: sv cs)
qed

text \<open>
  Claim C6. For a POST request that is not rate-limited the answer is 400 exactly when
  the prompt is missing, not a string, shorter than 20 or longer than 12000; so a prompt
  of length 19 or 12001 gives 400 and one of length 20 (or 12000) does not.
\<close>

theorem prompt_validation:
  "(method_name req = ''POST'' \<and> allowed (fst (checkRateLimit (getIP req) now s)) \<longrightarrow>
      (statusOf (fst (generate_handler envKey anthropic now req s)) = Some 400) =
        promptInvalid (promptField req)) \<and>
   (method_name req = ''POST'' \<and> allowed (fst (checkRateLimit (getIP req) now s)) \<and>
    promptField req = JStr p \<longrightarrow>
      (length p = 19 \<longrightarrow> statusOf (fst (generate_handler envKey anthropic now req s)) = Some 400) \<and>
      (length p = 20 \<longrightarrow> statusOf (fst (generate_handler envKey anthropic now req s)) \<noteq> Some 400) \<and>
      (length p = 12000 \<longrightarrow> statusOf (fst (generate_handler envKey anthropic now req s)) \<noteq> Some 400) \<and>
      (length p = 12001 \<longrightarrow> statusOf (fst (generate_handler envKey anthropic now req s)) = Some 400))"
proof -
  have iff: "(statusOf (fst (generate_handler envKey anthropic now req s)) = Some 400) =
        promptInvalid (promptField req)"
    if "method_name req = ''POST''" "allowed (fst (checkRateLimit (getIP req) now s))"
  proof (cases "promptInvalid (promptField req)")
    case True
    with that show ?thesis
      by (simp add: admitted_invalid statusOf_def jsonWith_def)
  next
    case False
    with that show ?thesis
      using admitted_valid [of req now s envKey anthropic] by simp
  qed
  show ?thesis
  proof (intro conjI impI)
    assume "method_name req = ''POST'' \<and> allowed (fst (checkRateLimit (getIP req) now s))"
    then show "(statusOf (fst (generate_handler envKey anthropic now req s)) = Some 400) =
        promptInvalid (promptField req)"
      using iff by simp
  next
    assume h: "method_name req = ''POST'' \<and> allowed (fst (checkRateLimit (getIP req) now s)) \<and>
      promptField req = JStr p" and "length p = 19"
    then show "statusOf (fst (generate_handler envKey anthropic now req s)) = Some 400"
      using iff by (simp add: promptInvalid_def)
  next
    assume h: "method_name req = ''POST'' \<and> allowed (fst (checkRateLimit (getIP req) now s)) \<and>
      promptField req = JStr p" and "length p = 20"
    then show "statusOf (fst (generate_handler envKey anthropic now req s)) \<noteq> Some 400"
      using iff by (simp add: promptInvalid_def)
  next
    assume h: "method_name req = ''POST'' \<and> allowed (fst (checkRateLimit (getIP req) now s)) \<and>
      promptField req = JStr p" and "length p = 12000"
    then show "statusOf (fst (generate_handler envKey anthropic now req s)) \<noteq> Some 400"
      using iff by (simp add: promptInvalid_def)
  next
    assume h: "method_name req = ''POST'' \<and> allowed (fst (checkRateLimit (getIP req) now s)) \<and>
      promptField req = JStr p" and "length p = 12001"
    then show "statusOf (fst (generate_handler envKey anthropic now req s)) = Some 400"
      using iff by (simp add: promptInvalid_def)
  qed
qed

theorem prompt_validation_witness:
  "method_name (promptRequest 19) = ''POST'' \<and>
   allowed (fst (checkRateLimit (getIP (promptRequest 19)) 1000 (coldStart 0))) \<and>
   promptField (promptRequest 19) = JStr (replicate 19 CHR ''a'') \<and>
   statusOf (fst (generate_handler (Some ''key'') (\<lambda>k p. UpstreamStream [p]) 1000 (promptRequest 19)
     (coldStart 0))) = Some 400 \<and>
   statusOf (fst (generate_handler (Some ''key'') (\<lambda>k p. UpstreamStream [p]) 1000 (promptRequest 20)
     (coldStart 0))) \<noteq> Some 400 \<and>
   statusOf (fst (generate_handler (Some ''key'') (\<lambda>k p. UpstreamStream [p]) 1000 (promptRequest 12001)
     (coldStart 0))) = Some 400"
proof -
  have m: "method_name (promptRequest n) = ''POST''" for n
    by (simp add: promptRequest_def proxiedRequest_def)
  have sv: "surviving (coldStart 0) ip 1000 = []" for ip
    by (simp add: surviving_def coldStart_def)
  have cs: "countSeen (coldStart 0) 1000 = 0"
    by (simp add: countSeen_def coldStart_def)
  have a: "allowed (fst (checkRateLimit (getIP (promptRequest n)) 1000 (coldStart 0)))" for n
    by (simp add: allowed_iff sv cs DAILY_GLOBAL_CAP_def RATE_LIMIT_MAX_def)
  have p: "promptField (promptRequest n) = JStr (replicate n CHR ''a'')" for n
    by (simp add: promptField_def promptRequest_def)
  note T = prompt_validation [of _ 1000 "coldStart 0" "Some ''key''" "\<lambda>k p. UpstreamStream [p]"]
  from T [of "promptRequest 19" "replicate 19 CHR ''a''"] m a p
  have p19: "statusOf (fst (generate_handler (Some ''key'') (\<lambda>k p. UpstreamStream [p]) 1000
      (promptRequest 19) (coldStart 0))) = Some 400"
    by (simp add: promptInvalid_def)
  from T [of "promptRequest 20" "replicate 20 CHR ''a''"] m a p
  have p20: "statusOf (fst (generate_handler (Some ''key'') (\<lambda>k p. UpstreamStream [p]) 1000
      (promptRequest 20) (coldStart 0))) \<noteq> Some 400"
    by (simp add: promptInvalid_def)
  from T [of "promptRequest 12001" "replicate 12001 CHR ''a''"] m a p
  have p12001: "statusOf (fst (generate_handler (Some ''key'') (\<lambda>k p. UpstreamStream [p]) 1000
      (promptRequest 12001) (coldStart 0))) = Some 400"
    by (simp add: promptInvalid_def)
  from m a p p19 p20 p12001 show ?thesis by simp
qed

lemma fetchSite_status: "statusCode (fetchSite fetch target) = 502 \<or> statusCode (fetchSite fetch target) = 200"
  by (simp add: fetchSite_def jsonWith_def split: fetch_outcome.splits sum.splits)

lemma fetchSite_not_400: "statusCode (fetchSite fetch target) \<noteq> 400"
  using fetchSite_status [of fetch target] by auto

lemma fetchSite_200:
  "(statusCode (fetchSite fetch target) = 200) =
     (\<exists>r html. fetch target = FetchResolves r \<and> ok r \<and> bodyText r = Inr html)"
  by (auto simp: fetchSite_def jsonWith_def split: fetch_outcome.splits sum.splits)

lemma fetch_handler_post:
  assumes "method_name req = ''POST''"
  shows "fetch_handler newURL fetch req =
     (if \<not> is_string (urlField req) \<or> urlField req = JStr []
      then jsonWith 400 [(''error'', JStr ''Missing url'')]
      else case newURL (the_string (urlField req)) of
             None \<Rightarrow> jsonWith 400 [(''error'', JStr ''Invalid URL'')]
           | Some p \<Rightarrow>
               if protocol p \<noteq> ''http:'' \<and> protocol p \<noteq> ''https:''
               then jsonWith 400 [(''error'', JStr ''Invalid URL'')]
               else fetchSite fetch (href p))"
proof -
  have t: "(\<not> truthy u \<or> \<not> is_string u) = (\<not> is_string u \<or> u = JStr [])" for u
    by (cases u) simp_all
  show ?thesis
    using assms
    unfolding fetch_handler_def get_prop_or_empty urlField_def [symmetric] Let_def t
    by (simp split: option.splits)
qed

lemma fetch_handler_400:
  assumes "method_name req = ''POST''"
  shows "(statusCode (fetch_handler newURL fetch req) = 400) =
     (urlRejected newURL (urlField req) \<or> urlField req = JStr [])"
  unfolding fetch_handler_post [OF assms] urlRejected_def
  by (auto simp: jsonWith_def fetchSite_not_400 split: option.splits)

lemma fetch_handler_valid:
  assumes "method_name req = ''POST''" and "urlField req = JStr u" and "u \<noteq> []"
    and "newURL u = Some p" and "protocol p = ''http:'' \<or> protocol p = ''https:''"
  shows "fetch_handler newURL fetch req = fetchSite fetch (href p)"
  unfolding fetch_handler_post [OF assms(1)] using assms(2-) by auto

text \<open>
  Claim C8. For a POST request to the fetch endpoint the answer is 400 exactly when the
  \<open>url\<close> field is missing, not a string, empty, not parsed as an absolute URL, or parsed
  with a scheme other than http and https; with a parser that rejects the empty string (as
  the platform's does) the empty case is one of parse failure. In particular
  \<open>ftp://x.com\<close>, which the platform parses with protocol \<open>ftp:\<close>, is answered 400
  ``Invalid URL'', and \<open>https://example.com\<close>, parsed with protocol \<open>https:\<close>, goes on to
  the outbound fetch of the parsed address.
\<close>

theorem url_validation:
  "(method_name req = ''POST'' \<longrightarrow>
      (statusCode (fetch_handler newURL fetch req) = 400) =
        (urlRejected newURL (urlField req) \<or> urlField req = JStr [])) \<and>
   (method_name req = ''POST'' \<and> newURL [] = None \<longrightarrow>
      (statusCode (fetch_handler newURL fetch req) = 400) = urlRejected newURL (urlField req)) \<and>
   (method_name req = ''POST'' \<and> urlField req = JStr ''ftp://x.com'' \<and>
    (\<forall>p. newURL ''ftp://x.com'' = Some p \<longrightarrow> protocol p = ''ftp:'') \<longrightarrow>
      fetch_handler newURL fetch req = jsonWith 400 [(''error'', JStr ''Invalid URL'')]) \<and>
   (method_name req = ''POST'' \<and> urlField req = JStr ''https://example.com'' \<and>
    newURL ''https://example.com'' = Some p \<and> protocol p = ''https:'' \<longrightarrow>
      fetch_handler newURL fetch req = fetchSite fetch (href p) \<and>
      statusCode (fetch_handler newURL fetch req) \<noteq> 400)"
proof (intro conjI impI)
  assume "method_name req = ''POST''"
  then show "(statusCode (fetch_handler newURL fetch req) = 400) =
        (urlRejected newURL (urlField req) \<or> urlField req = JStr [])"
    by (rule fetch_handler_400)
next
  assume h: "method_name req = ''POST'' \<and> newURL [] = None"
  then have "urlField req = JStr [] \<Longrightarrow> urlRejected newURL (urlField req)"
    by (simp add: urlRejected_def)
  with h show "(statusCode (fetch_handler newURL fetch req) = 400) = urlRejected newURL (urlField req)"
    using fetch_handler_400 [of req newURL fetch] by auto
next
  assume "method_name req = ''POST'' \<and> urlField req = JStr ''ftp://x.com'' \<and>
    (\<forall>p. newURL ''ftp://x.com'' = Some p \<longrightarrow> protocol p = ''ftp:'')"
  then show "fetch_handler newURL fetch req = jsonWith 400 [(''error'', JStr ''Invalid URL'')]"
    by (auto simp: fetch_handler_post split: option.splits)
next
  assume h: "method_name req = ''POST'' \<and> urlField req = JStr ''https://example.com'' \<and>
    newURL ''https://example.com'' = Some p \<and> protocol p = ''https:''"
  then show eq: "fetch_handler newURL fetch req = fetchSite fetch (href p)"
    by (intro fetch_handler_valid [where u = "''https://example.com''"]) simp_all
  show "statusCode (fetch_handler newURL fetch req) \<noteq> 400"
    unfolding eq by (rule fetchSite_not_400)
qed

theorem url_validation_witness:
  "method_name (urlRequest ''ftp://x.com'') = ''POST'' \<and> exampleURL [] = None \<and>
   urlRejected exampleURL (urlField (urlRequest ''ftp://x.com'')) \<and>
   statusCode (fetch_handler exampleURL exampleFetch (urlRequest ''ftp://x.com'')) = 400 \<and>
   fetch_handler exampleURL exampleFetch (urlRequest ''ftp://x.com'') =
     jsonWith 400 [(''error'', JStr ''Invalid URL'')] \<and>
   exampleURL ''https://example.com'' = Some \<lparr>protocol = ''https:'', href = ''https://example.com/''\<rparr> \<and>
   fetch_handler exampleURL exampleFetch (urlRequest ''https://example.com'') =
     jsonWith 200 [(''html'', JStr ''<html></html>'')]"
proof -
  have m: "method_name (urlRequest u) = ''POST''" and f: "urlField (urlRequest u) = JStr u" for u
    by (simp_all add: urlRequest_def urlField_def)
  have e: "exampleURL [] = None"
    and ftp: "exampleURL ''ftp://x.com'' = Some \<lparr>protocol = ''ftp:'', href = ''ftp://x.com/''\<rparr>"
    and https: "exampleURL ''https://example.com'' = Some \<lparr>protocol = ''https:'', href = ''https://example.com/''\<rparr>"
    by (simp_all add: exampleURL_def)
  have rej: "urlRejected exampleURL (urlField (urlRequest ''ftp://x.com''))"
    by (simp add: urlRejected_def f ftp)
  have site: "fetchSite exampleFetch ''https://example.com/'' = jsonWith 200 [(''html'', JStr ''<html></html>'')]"
    by (simp add: fetchSite_def exampleFetch_def)
  note T = url_validation [of _ exampleURL exampleFetch]
  from T [of "urlRequest ''ftp://x.com''"] m e rej
  have p1: "statusCode (fetch_handler exampleURL exampleFetch (urlRequest ''ftp://x.com'')) = 400"
    by blast
  have "\<forall>p. exampleURL ''ftp://x.com'' = Some p \<longrightarrow> protocol p = ''ftp:''"
    by (simp add: ftp)
  with T [of "urlRequest ''ftp://x.com''"] m f
  have p2: "fetch_handler exampleURL exampleFetch (urlRequest ''ftp://x.com'') =
     jsonWith 400 [(''error'', JStr ''Invalid URL'')]"
    by blast
  have "protocol \<lparr>protocol = ''https:'', href = ''https://example.com/''\<rparr> = ''https:''"
    by simp
  with T [of "urlRequest ''https://example.com''" "\<lparr>protocol = ''https:'', href = ''https://example.com/''\<rparr>"]
    m f https
  have "fetch_handler exampleURL exampleFetch (urlRequest ''https://example.com'') =
     fetchSite exampleFetch (href \<lparr>protocol = ''https:'', href = ''https://example.com/''\<rparr>)"
    by blast
  then have p3: "fetch_handler exampleURL exampleFetch (urlRequest ''https://example.com'') =
     jsonWith 200 [(''html'', JStr ''<html></html>'')]"
    by (simp add: site)
  from m e rej p1 p2 https p3 show ?thesis by blast
qed

text \<open>
  Claim C9. For a POST request with a valid URL: a response of the outbound fetch with a
  non-success status is answered 502 carrying that status code; a fetch that throws is
  answered 502 carrying the failure's message (and so is a body that cannot be read);
  a successful fetch is answered 200 with the whole body text as the single field
  \<open>html\<close>; and the answer is 200 only in that last case.
\<close>

theorem fetch_outcomes:
  "method_name req = ''POST'' \<and> urlField req = JStr u \<and> u \<noteq> [] \<and> newURL u = Some p \<and>
   (protocol p = ''http:'' \<or> protocol p = ''https:'') \<longrightarrow>
     (\<forall>r. fetch (href p) = FetchResolves r \<and> \<not> ok r \<longrightarrow>
        fetch_handler newURL fetch req =
          jsonWith 502 [(''error'', JStr (''Site returned '' @ numToString (int (status r))))]) \<and>
     (\<forall>e. fetch (href p) = FetchThrows e \<longrightarrow>
        fetch_handler newURL fetch req =
          jsonWith 502 [(''error'', JStr (''Could not reach site: '' @ e))]) \<and>
     (\<forall>r html. fetch (href p) = FetchResolves r \<and> ok r \<and> bodyText r = Inr html \<longrightarrow>
        fetch_handler newURL fetch req = jsonWith 200 [(''html'', JStr html)]) \<and>
     (\<forall>r e. fetch (href p) = FetchResolves r \<and> ok r \<and> bodyText r = Inl e \<longrightarrow>
        fetch_handler newURL fetch req =
          jsonWith 502 [(''error'', JStr (''Could not reach site: '' @ e))]) \<and>
     ((statusCode (fetch_handler newURL fetch req) = 200) =
        (\<exists>r html. fetch (href p) = FetchResolves r \<and> ok r \<and> bodyText r = Inr html))"
proof (intro impI)
  assume "method_name req = ''POST'' \<and> urlField req = JStr u \<and> u \<noteq> [] \<and> newURL u = Some p \<and>
   (protocol p = ''http:'' \<or> protocol p = ''https:'')"
  then have eq: "fetch_handler newURL fetch req = fetchSite fetch (href p)"
    by (intro fetch_handler_valid [where u = u]) simp_all
  show "(\<forall>r. fetch (href p) = FetchResolves r \<and> \<not> ok r \<longrightarrow>
        fetch_handler newURL fetch req =
          jsonWith 502 [(''error'', JStr (''Site returned '' @ numToString (int (status r))))]) \<and>
     (\<forall>e. fetch (href p) = FetchThrows e \<longrightarrow>
        fetch_handler newURL fetch req =
          jsonWith 502 [(''error'', JStr (''Could not reach site: '' @ e))]) \<and>
     (\<forall>r html. fetch (href p) = FetchResolves r \<and> ok r \<and> bodyText r = Inr html \<longrightarrow>
        fetch_handler newURL fetch req = jsonWith 200 [(''html'', JStr html)]) \<and>
     (\<forall>r e. fetch (href p) = FetchResolves r \<and> ok r \<and> bodyText r = Inl e \<longrightarrow>
        fetch_handler newURL fetch req =
          jsonWith 502 [(''error'', JStr (''Could not reach site: '' @ e))]) \<and>
     ((statusCode (fetch_handler newURL fetch req) = 200) =
        (\<exists>r html. fetch (href p) = FetchResolves r \<and> ok r \<and> bodyText r = Inr html))"
    unfolding eq fetchSite_200 by (simp add: fetchSite_def)
qed

theorem fetch_outcomes_witness:
  "fetch_handler exampleURL exampleFetch (urlRequest ''https://example.com/missing'') =
     jsonWith 502 [(''error'', JStr ''Site returned 404'')] \<and>
   fetch_handler exampleURL exampleFetch (urlRequest ''http://nowhere.invalid'') =
     jsonWith 502 [(''error'', JStr ''Could not reach site: getaddrinfo ENOTFOUND'')] \<and>
   fetch_handler exampleURL exampleFetch (urlRequest ''https://example.com'') =
     jsonWith 200 [(''html'', JStr ''<html></html>'')] \<and>
   statusCode (fetch_handler exampleURL exampleFetch (urlRequest ''https://example.com'')) = 200"
proof -
  let ?missing = "\<lparr>protocol = ''https:'', href = ''https://example.com/missing''\<rparr>"
  let ?nowhere = "\<lparr>protocol = ''http:'', href = ''http://nowhere.invalid/''\<rparr>"
  let ?site = "\<lparr>protocol = ''https:'', href = ''https://example.com/''\<rparr>"
  let ?r404 = "\<lparr>ok = False, status = 404, bodyText = Inr ''not found''\<rparr>"
  let ?r200 = "\<lparr>ok = True, status = 200, bodyText = Inr ''<html></html>''\<rparr>"
  have n404: "numToString (int 404) = ''404''"
    by (simp add: numToString_def natToString.simps [of 404] natToString.simps [of 40]
        natToString.simps [of 4] digitChars_def)
  have pre1: "method_name (urlRequest ''https://example.com/missing'') = ''POST'' \<and>
      urlField (urlRequest ''https://example.com/missing'') = JStr ''https://example.com/missing'' \<and>
      ''https://example.com/missing'' \<noteq> [] \<and>
      exampleURL ''https://example.com/missing'' = Some ?missing \<and>
      (protocol ?missing = ''http:'' \<or> protocol ?missing = ''https:'')"
    by (simp add: urlRequest_def urlField_def exampleURL_def)
  have out1: "exampleFetch (href ?missing) = FetchResolves ?r404 \<and> \<not> ok ?r404"
    by (simp add: exampleFetch_def)
  note c1 = fetch_outcomes [of "urlRequest ''https://example.com/missing''"
      "''https://example.com/missing''" exampleURL ?missing exampleFetch, THEN mp, OF pre1]
  have p1: "fetch_handler exampleURL exampleFetch (urlRequest ''https://example.com/missing'') =
     jsonWith 502 [(''error'', JStr ''Site returned 404'')]"
    using c1 [THEN conjunct1, rule_format, OF out1] n404 by simp
  have pre2: "method_name (urlRequest ''http://nowhere.invalid'') = ''POST'' \<and>
      urlField (urlRequest ''http://nowhere.invalid'') = JStr ''http://nowhere.invalid'' \<and>
      ''http://nowhere.invalid'' \<noteq> [] \<and>
      exampleURL ''http://nowhere.invalid'' = Some ?nowhere \<and>
      (protocol ?nowhere = ''http:'' \<or> protocol ?nowhere = ''https:'')"
    by (simp add: urlRequest_def urlField_def exampleURL_def)
  have out2: "exampleFetch (href ?nowhere) = FetchThrows ''getaddrinfo ENOTFOUND''"
    by (simp add: exampleFetch_def)
  note c2 = fetch_outcomes [of "urlRequest ''http://nowhere.invalid''"
      "''http://nowhere.invalid''" exampleURL ?nowhere exampleFetch, THEN mp, OF pre2]
  have p2: "fetch_handler exampleURL exampleFetch (urlRequest ''http://nowhere.invalid'') =
     jsonWith 502 [(''error'', JStr ''Could not reach site: getaddrinfo ENOTFOUND'')]"
    using c2 [THEN conjunct2, THEN conjunct1, rule_format, OF out2] by simp
  have pre3: "method_name (urlRequest ''https://example.com'') = ''POST'' \<and>
      urlField (urlRequest ''https://example.com'') = JStr ''https://example.com'' \<and>
      ''https://example.com'' \<noteq> [] \<and>
      exampleURL ''https://example.com'' = Some ?site \<and>
      (protocol ?site = ''http:'' \<or> protocol ?site = ''https:'')"
    by (simp add: urlRequest_def urlField_def exampleURL_def)
  have out3: "exampleFetch (href ?site) = FetchResolves ?r200 \<and> ok ?r200 \<and>
      bodyText ?r200 = Inr ''<html></html>''"
    by (simp add: exampleFetch_def)
  note c3 = fetch_outcomes [of "urlRequest ''https://example.com''"
      "''https://example.com''" exampleURL ?site exampleFetch, THEN mp, OF pre3]
  have p3: "fetch_handler exampleURL exampleFetch (urlRequest ''https://example.com'') =
     jsonWith 200 [(''html'', JStr ''<html></html>'')]"
    using c3 [THEN conjunct2, THEN conjunct2, THEN conjunct1, rule_format, OF out3] by simp
  have "\<exists>r html. exampleFetch (href ?site) = FetchResolves r \<and> ok r \<and> bodyText r = Inr html"
    using out3 by blast
  then have p4: "statusCode (fetch_handler exampleURL exampleFetch (urlRequest ''https://example.com'')) = 200"
    using c3 [THEN conjunct2, THEN conjunct2, THEN conjunct2, THEN conjunct2] by blast
  from p1 p2 p3 p4 show ?thesis by blast
qed

end
